theory Spec2Isabelle
  imports Complex_Main "HOL-Library.Sublist"
begin

section \<open>The Netcat connection of nclib.py\<close>

text \<open>
  The development embeds the receive and send operations of class \<open>Netcat\<close>
  (src/nclib.py, Python 3). A connection is a record; every method takes the record and
  returns the updated record together with either the returned value or the exception
  that left the method. The socket and the wall clock are scripted: the record carries
  the outcomes of the successive \<open>sock.recv\<close>, \<open>time.time\<close> and
  \<open>sock.send\<close>/\<open>sock.sendto\<close> calls, and a method that needs an outcome the script
  does not hold has no result (\<open>None\<close>): it is still blocked in that call.

  Of the echo to standard output the model keeps what can change the course of a
  method: the attributes \<open>verbose\<close> and \<open>echo_headers\<close>, and the header line of
  \<open>recv_exactly\<close>, whose format string is not well formed. The header lines of the
  other methods format without error and only print. The echo of the data
  (\<open>_log_something\<close>) and the log files are left out: what is kept of \<open>_log_recv\<close>
  and \<open>_log_send\<close> is the sequence of their calls.
\<close>

subsection \<open>Data\<close>

type_synonym bytes = string
type_synonym addr = "string \<times> nat"

text \<open>The three messages a \<open>NetcatError\<close> is raised with.\<close>

datatype reason = Connection_dropped | Socket_error | Closed_before int

datatype exn =
    NetcatError reason
  | SocketTimeout
  | SocketError
  | KeyboardInterrupt
  | ValueError
  | AttributeError

text \<open>
  What \<open>sock.recv\<close> meets: bytes that have arrived, the peer's close (the call returns
  \<open>b''\<close>), no data at all, a socket error, or Ctrl-C.
\<close>

datatype sock_event = Burst bytes | Closed | Stall | Fault | CtrlC

text \<open>One outcome of \<open>sock.send\<close> or \<open>sock.sendto\<close>: the number of bytes accepted, or an error.\<close>

datatype write_event = Accepted nat | WriteFault

text \<open>The \<open>timeout\<close> parameter: the string \<open>'default'\<close>, or \<open>None\<close>, or a number of seconds.\<close>

datatype timeout_arg = Default | Given "real option"

record netcat =
  buf :: bytes
  peer :: "addr option"
  peer_implicit :: bool
  default_timeout :: "real option"
  timed_out :: bool
  sock_timeout :: "real option"
  incoming :: "sock_event list"
  clock :: "real list"
  outgoing :: "write_event list"
  wire :: "(addr option \<times> bytes) list"
  recv_log :: "bytes list"
  send_log :: "bytes list"
  verbose :: bool
  echo_headers :: bool

text \<open>
  \<open>default_timeout\<close> is the attribute \<open>_timeout\<close>; \<open>sock_timeout\<close> is the deadline
  the socket object itself holds (what \<open>sock.gettimeout()\<close> would return);
  \<open>wire\<close> lists the writes the socket accepted, each with its explicit target
  (\<open>None\<close> for \<open>sock.send\<close>, which goes to the connected peer).
\<close>

type_synonym 'a result = "((exn + 'a) \<times> netcat) option"

subsection \<open>Python's bytes operations\<close>

definition slice_to :: "int \<Rightarrow> bytes \<Rightarrow> bytes" where
  \<comment> \<open>\<open>xs[:n]\<close>; a negative \<open>n\<close> counts from the end\<close>
  "slice_to n xs = (if 0 \<le> n then take (nat n) xs else take (length xs - nat (- n)) xs)"

definition slice_from :: "int \<Rightarrow> bytes \<Rightarrow> bytes" where
  \<comment> \<open>\<open>xs[n:]\<close>\<close>
  "slice_from n xs = (if 0 \<le> n then drop (nat n) xs else drop (length xs - nat (- n)) xs)"

fun find_bytes :: "bytes \<Rightarrow> bytes \<Rightarrow> nat option" where
  \<comment> \<open>the lowest index at which \<open>s\<close> occurs in \<open>xs\<close>\<close>
  "find_bytes s [] = (if s = [] then Some 0 else None)"
| "find_bytes s (x # xs) =
     (if prefix s (x # xs) then Some 0 else map_option Suc (find_bytes s xs))"

definition bytes_in :: "bytes \<Rightarrow> bytes \<Rightarrow> bool" where
  \<comment> \<open>\<open>s in xs\<close>\<close>
  "bytes_in s xs = (find_bytes s xs \<noteq> None)"

definition bytes_eq_str :: "bytes \<Rightarrow> string \<Rightarrow> bool" where
  \<comment> \<open>\<open>b == ''\<close> with \<open>b\<close> a bytes object and a str literal: in Python 3 a bytes
      object never equals a str, whatever they hold\<close>
  "bytes_eq_str b s = False"

fun falsy :: "timeout_arg \<Rightarrow> bool" where
  \<comment> \<open>\<open>not timeout\<close>: the string \<open>'default'\<close> is true, \<open>None\<close> and zero are false\<close>
  "falsy Default = False"
| "falsy (Given None) = True"
| "falsy (Given (Some t)) = (t = 0)"

fun truthy :: "real option \<Rightarrow> bool" where
  \<comment> \<open>\<open>if timeout:\<close> once \<open>'default'\<close> has been replaced: \<open>None\<close> and zero are false\<close>
  "truthy None = False"
| "truthy (Some t) = (t \<noteq> 0)"

subsection \<open>The socket and the clock\<close>

definition sock_settimeout :: "real option \<Rightarrow> netcat \<Rightarrow> exn + netcat" where
  \<comment> \<open>\<open>sock.settimeout(t)\<close>: a negative number is rejected with ValueError\<close>
  "sock_settimeout t st =
     (case t of
        None \<Rightarrow> Inr (st\<lparr>sock_timeout := None\<rparr>)
      | Some x \<Rightarrow> if x < 0 then Inl ValueError else Inr (st\<lparr>sock_timeout := Some x\<rparr>))"

definition sock_recv :: "int \<Rightarrow> netcat \<Rightarrow> bytes result" where
  \<comment> \<open>\<open>sock.recv(k)\<close> on a stream socket: at most \<open>k\<close> of the bytes that arrived,
      the rest stay in the socket. With no data, the call ends with \<open>socket.timeout\<close>
      at the socket's deadline, with \<open>BlockingIOError\<close> (a \<open>socket.error\<close>) at once when
      the deadline is zero, and not at all when the socket has no deadline\<close>
  "sock_recv k st =
     (if k < 0 then Some (Inl ValueError, st)
      else case incoming st of
        [] \<Rightarrow> None
      | Burst bs # es \<Rightarrow>
          if length bs \<le> nat k then Some (Inr bs, st\<lparr>incoming := es\<rparr>)
          else Some (Inr (take (nat k) bs), st\<lparr>incoming := Burst (drop (nat k) bs) # es\<rparr>)
      | Closed # es \<Rightarrow> Some (Inr [], st\<lparr>incoming := es\<rparr>)
      | Stall # es \<Rightarrow>
          (case sock_timeout st of
             None \<Rightarrow> None
           | Some t \<Rightarrow>
               if t = 0 then Some (Inl SocketError, st\<lparr>incoming := es\<rparr>)
               else Some (Inl SocketTimeout, st\<lparr>incoming := es\<rparr>))
      | Fault # es \<Rightarrow> Some (Inl SocketError, st\<lparr>incoming := es\<rparr>)
      | CtrlC # es \<Rightarrow> Some (Inl KeyboardInterrupt, st\<lparr>incoming := es\<rparr>))"

definition time_time :: "netcat \<Rightarrow> (real \<times> netcat) option" where
  \<comment> \<open>\<open>time.time()\<close>\<close>
  "time_time st =
     (case clock st of [] \<Rightarrow> None | c # cs \<Rightarrow> Some (c, st\<lparr>clock := cs\<rparr>))"

definition sock_send :: "bytes \<Rightarrow> netcat \<Rightarrow> nat result" where
  \<comment> \<open>\<open>sock.send(s)\<close>\<close>
  "sock_send s st =
     (case outgoing st of
        [] \<Rightarrow> None
      | Accepted k # ws \<Rightarrow>
          Some (Inr k, st\<lparr>outgoing := ws, wire := wire st @ [(None, take k s)]\<rparr>)
      | WriteFault # ws \<Rightarrow> Some (Inl SocketError, st\<lparr>outgoing := ws\<rparr>))"

definition sock_sendto :: "bytes \<Rightarrow> addr \<Rightarrow> netcat \<Rightarrow> nat result" where
  \<comment> \<open>\<open>sock.sendto(s, 0, p)\<close>\<close>
  "sock_sendto s p st =
     (case outgoing st of
        [] \<Rightarrow> None
      | Accepted k # ws \<Rightarrow>
          Some (Inr k, st\<lparr>outgoing := ws, wire := wire st @ [(Some p, take k s)]\<rparr>)
      | WriteFault # ws \<Rightarrow> Some (Inl SocketError, st\<lparr>outgoing := ws\<rparr>))"

subsection \<open>Construction\<close>

text \<open>
  What the constructor finds outside: the scripts of the socket it creates, the address
  \<open>accept()\<close> returns and the datagram \<open>recvfrom(1024)\<close> returns with its sender.
\<close>

record world =
  w_incoming :: "sock_event list"
  w_clock :: "real list"
  w_outgoing :: "write_event list"
  accept_addr :: addr
  first_datagram :: "bytes \<times> addr"

definition fresh :: "world \<Rightarrow> netcat" where
  "fresh w = \<lparr>buf = [], peer = None, peer_implicit = True, default_timeout = None,
     timed_out = False, sock_timeout = None, incoming = w_incoming w, clock = w_clock w,
     outgoing = w_outgoing w, wire = [], recv_log = [], send_log = [],
     verbose = False, echo_headers = True\<rparr>"

definition init ::
  "addr option \<Rightarrow> real option option \<Rightarrow> addr option \<Rightarrow> bool \<Rightarrow> world \<Rightarrow> exn + netcat" where
  \<comment> \<open>\<open>__init__(server, sock, listen, udp)\<close>; \<open>sock\<close> is \<open>Some t\<close> for a given socket
      whose deadline is \<open>t\<close>\<close>
  "init server sock listen udp w =
     (case sock of
        None \<Rightarrow>
          (case server of
             Some a \<Rightarrow> Inr ((fresh w)\<lparr>peer := Some a, peer_implicit := True\<rparr>)
           | None \<Rightarrow>
               (case listen of
                  Some l \<Rightarrow>
                    if \<not> udp
                    then Inr ((fresh w)\<lparr>peer := Some (accept_addr w), peer_implicit := True\<rparr>)
                    else Inr ((fresh w)\<lparr>buf := take 1024 (fst (first_datagram w)),
                                peer := Some (snd (first_datagram w)),
                                peer_implicit := False\<rparr>)
                | None \<Rightarrow> Inl ValueError))
      | Some t \<Rightarrow> Inr ((fresh w)\<lparr>sock_timeout := t, peer_implicit := True\<rparr>))"

definition settimeout :: "real option \<Rightarrow> netcat \<Rightarrow> exn + netcat" where
  "settimeout t st = sock_settimeout t (st\<lparr>default_timeout := t\<rparr>)"

subsection \<open>Helpers of the receive operations\<close>

definition head_buf :: "int option \<Rightarrow> netcat \<Rightarrow> bytes \<times> netcat" where
  \<comment> \<open>\<open>_head_buf(index)\<close>\<close>
  "head_buf index st =
     (let i = (case index of None \<Rightarrow> int (length (buf st)) | Some j \<Rightarrow> j)
      in (slice_to i (buf st), st\<lparr>buf := slice_from i (buf st)\<rparr>))"

definition log_recv :: "bytes \<Rightarrow> netcat \<Rightarrow> netcat" where
  \<comment> \<open>\<open>_log_recv(data)\<close>\<close>
  "log_recv d st = st\<lparr>recv_log := recv_log st @ [d]\<rparr>"

definition log_send :: "bytes \<Rightarrow> netcat \<Rightarrow> netcat" where
  \<comment> \<open>\<open>_log_send(data)\<close>\<close>
  "log_send d st = st\<lparr>send_log := send_log st @ [d]\<rparr>"

definition effective :: "timeout_arg \<Rightarrow> netcat \<Rightarrow> real option" where
  \<comment> \<open>\<open>if timeout == 'default': timeout = self._timeout\<close>\<close>
  "effective t st = (case t of Default \<Rightarrow> default_timeout st | Given x \<Rightarrow> x)"

text \<open>
  The block that opens the body of the three \<open>while\<close> loops, written out in each of them
  in the source:
  \<^verbatim>\<open>
  if timeout is not None:
      dt = time.time()-start
      if dt > timeout:
          self.timed_out = True
          break
      self.sock.settimeout(timeout-dt)
  \<close>
  The result is \<open>True\<close> for the \<open>break\<close>. Python computes the two differences in
  floating point, the model exactly: the statements below that involve the clock hold
  for whatever branch the test takes, or ask that a reading is not later than the
  deadline, which rounding a difference to a float keeps.
\<close>

definition check_deadline :: "real option \<Rightarrow> real \<Rightarrow> netcat \<Rightarrow> bool result" where
  "check_deadline timeout start st =
     (case timeout of
        None \<Rightarrow> Some (Inr False, st)
      | Some t \<Rightarrow>
          (case time_time st of
             None \<Rightarrow> None
           | Some (now, st1) \<Rightarrow>
               let dt = now - start in
               if dt > t then Some (Inr True, st1\<lparr>timed_out := True\<rparr>)
               else (case sock_settimeout (Some (t - dt)) st1 of
                       Inl e \<Rightarrow> Some (Inl e, st1)
                     | Inr st2 \<Rightarrow> Some (Inr False, st2))))"

fun script_size :: "sock_event list \<Rightarrow> nat" where
  "script_size [] = 0"
| "script_size (Burst bs # es) = Suc (length bs + script_size es)"
| "script_size (e # es) = Suc (script_size es)"

subsection \<open>recv\<close>

text \<open>The \<open>try\<close> statement of \<open>recv\<close> with its handlers; the value is \<open>ret\<close>.\<close>

definition recv_try :: "int \<Rightarrow> timeout_arg \<Rightarrow> netcat \<Rightarrow> bytes result" where
  "recv_try n timeout st =
     (case (case timeout of Default \<Rightarrow> Inr st | Given t \<Rightarrow> sock_settimeout t st) of
        Inl e \<Rightarrow> Some (Inl e, st)
      | Inr st1 \<Rightarrow>
          (case sock_recv (n - int (length (buf st1))) st1 of
             None \<Rightarrow> None
           | Some (Inr a, st2) \<Rightarrow> Some (Inr (buf st2 @ a), st2\<lparr>buf := []\<rparr>)
           | Some (Inl SocketTimeout, st2) \<Rightarrow> Some (Inr [], st2\<lparr>timed_out := True\<rparr>)
           | Some (Inl SocketError, st2) \<Rightarrow> Some (Inl (NetcatError Socket_error), st2)
           | Some (Inl e, st2) \<Rightarrow> Some (Inl e, st2)))"

definition recv :: "int \<Rightarrow> timeout_arg \<Rightarrow> netcat \<Rightarrow> bytes result" where
  "recv n timeout st0 =
     (let st = st0\<lparr>timed_out := False\<rparr> in
      if buf st \<noteq> [] then
        (let ret = slice_to n (buf st);
             st1 = st\<lparr>buf := slice_from n (buf st)\<rparr>
         in Some (Inr ret, log_recv ret st1))
      else
        (case recv_try n timeout st of
           None \<Rightarrow> None
         | Some (Inl e, st1) \<Rightarrow> Some (Inl e, st1)
         | Some (Inr ret, st1) \<Rightarrow>
             (case sock_settimeout (default_timeout st1) st1 of
                Inl e \<Rightarrow> Some (Inl e, st1)
              | Inr st2 \<Rightarrow>
                  if falsy timeout \<and> bytes_eq_str ret ''''
                  then Some (Inl (NetcatError Connection_dropped), st2)
                  else Some (Inr ret, log_recv ret st2))))"

subsection \<open>recv_until\<close>

function recv_until_loop :: "bytes \<Rightarrow> real option \<Rightarrow> real \<Rightarrow> netcat \<Rightarrow> unit result" where
  "recv_until_loop s timeout start st =
     (if bytes_in s (buf st) then Some (Inr (), st)
      else
        (case check_deadline timeout start st of
           None \<Rightarrow> None
         | Some (Inl e, st1) \<Rightarrow> Some (Inl e, st1)
         | Some (Inr True, st1) \<Rightarrow> Some (Inr (), st1)
         | Some (Inr False, st1) \<Rightarrow>
             (case sock_recv 4096 st1 of
                None \<Rightarrow> None
              | Some (Inl e, st2) \<Rightarrow> Some (Inl e, st2)
              | Some (Inr a, st2) \<Rightarrow>
                  if bytes_eq_str a ''''
                  then Some (Inl (NetcatError Connection_dropped), st2)
                  else recv_until_loop s timeout start
                         ((log_recv a st2)\<lparr>buf := buf st2 @ a\<rparr>))))"
  by pat_completeness auto
termination
proof (relation "measure (\<lambda>(s, timeout, start, st). script_size (incoming st))")
  show "wf (measure (\<lambda>(s, timeout, start, st). script_size (incoming st)))"
    by simp
next
  fix s :: bytes and timeout start st x2 x1 st1 x2a x2b x1a st2 a
  assume c: "check_deadline timeout start st = Some x2" "(x1, st1) = x2"
    and r: "sock_recv 4096 st1 = Some x2b" "(x1a, st2) = x2b" "x1a = Inr a"
  from c have "incoming st1 = incoming st"
    by (auto simp: check_deadline_def time_time_def sock_settimeout_def Let_def
        split: option.splits list.splits if_splits sum.splits)
  moreover from r have "script_size (incoming st2) < script_size (incoming st1)"
    by (auto simp: sock_recv_def split: if_splits list.splits sock_event.splits option.splits)
  ultimately
  show "((s, timeout, start, (log_recv a st2)\<lparr>buf := buf st2 @ a\<rparr>), s, timeout, start, st)
             \<in> measure (\<lambda>(s, timeout, start, st). script_size (incoming st))"
    by (simp add: log_recv_def)
qed

text \<open>The \<open>try\<close> statement around the loop: \<open>except socket.timeout\<close> is its only handler.\<close>

definition recv_until_try :: "bytes \<Rightarrow> real option \<Rightarrow> real \<Rightarrow> netcat \<Rightarrow> unit result" where
  "recv_until_try s timeout start st =
     (case recv_until_loop s timeout start st of
        None \<Rightarrow> None
      | Some (Inl SocketTimeout, st1) \<Rightarrow> Some (Inr (), st1\<lparr>timed_out := True\<rparr>)
      | Some (Inl e, st1) \<Rightarrow> Some (Inl e, st1)
      | Some (Inr u, st1) \<Rightarrow> Some (Inr (), st1))"

definition recv_until :: "bytes \<Rightarrow> timeout_arg \<Rightarrow> netcat \<Rightarrow> bytes result" where
  "recv_until s timeout0 st0 =
     (let st = st0\<lparr>timed_out := False\<rparr>;
          timeout = effective timeout0 st
      in case time_time st of
           None \<Rightarrow> None
         | Some (start, st1) \<Rightarrow>
             (case recv_until_try s timeout start st1 of
                None \<Rightarrow> None
              | Some (Inl e, st2) \<Rightarrow> Some (Inl e, st2)
              | Some (Inr u, st2) \<Rightarrow>
                  (case sock_settimeout (default_timeout st2) st2 of
                     Inl e \<Rightarrow> Some (Inl e, st2)
                   | Inr st3 \<Rightarrow>
                       if \<not> timed_out st3 then
                         (case find_bytes s (buf st3) of
                            None \<Rightarrow> Some (Inl ValueError, st3)
                          | Some i \<Rightarrow>
                              (let (ret, st4) = head_buf (Some (int i + int (length s))) st3
                               in Some (Inr ret, log_recv ret st4)))
                       else
                         (let (ret, st4) = head_buf None st3
                          in Some (Inr ret, log_recv ret st4)))))"

subsection \<open>recv_all\<close>

function recv_all_loop :: "real option \<Rightarrow> real \<Rightarrow> netcat \<Rightarrow> unit result" where
  "recv_all_loop timeout start st =
     (case check_deadline timeout start st of
        None \<Rightarrow> None
      | Some (Inl e, st1) \<Rightarrow> Some (Inl e, st1)
      | Some (Inr True, st1) \<Rightarrow> Some (Inr (), st1)
      | Some (Inr False, st1) \<Rightarrow>
          (case sock_recv 4096 st1 of
             None \<Rightarrow> None
           | Some (Inl e, st2) \<Rightarrow> Some (Inl e, st2)
           | Some (Inr a, st2) \<Rightarrow>
               if a = [] then Some (Inr (), st2)
               else recv_all_loop timeout start (log_recv a (st2\<lparr>buf := buf st2 @ a\<rparr>))))"
  by pat_completeness auto
termination
proof (relation "measure (\<lambda>(timeout, start, st). script_size (incoming st))")
  show "wf (measure (\<lambda>(timeout, start, st). script_size (incoming st)))"
    by simp
next
  fix timeout start st x2 x1 st1 x2a x2b x1a st2 a
  assume c: "check_deadline timeout start st = Some x2" "(x1, st1) = x2"
    and r: "sock_recv 4096 st1 = Some x2b" "(x1a, st2) = x2b" "x1a = Inr a"
  from c have "incoming st1 = incoming st"
    by (auto simp: check_deadline_def time_time_def sock_settimeout_def Let_def
        split: option.splits list.splits if_splits sum.splits)
  moreover from r have "script_size (incoming st2) < script_size (incoming st1)"
    by (auto simp: sock_recv_def split: if_splits list.splits sock_event.splits option.splits)
  ultimately
  show "((timeout, start, log_recv a (st2\<lparr>buf := buf st2 @ a\<rparr>)), timeout, start, st)
             \<in> measure (\<lambda>(timeout, start, st). script_size (incoming st))"
    by (simp add: log_recv_def)
qed

text \<open>
  The handlers of the \<open>try\<close> statement: Ctrl-C, a socket error and a \<open>NetcatError\<close>
  are swallowed, a timeout sets the flag, anything else leaves the method.
\<close>

definition recv_all_try :: "real option \<Rightarrow> real \<Rightarrow> netcat \<Rightarrow> unit result" where
  "recv_all_try timeout start st =
     (case recv_all_loop timeout start st of
        None \<Rightarrow> None
      | Some (Inl KeyboardInterrupt, st1) \<Rightarrow> Some (Inr (), st1)
      | Some (Inl SocketTimeout, st1) \<Rightarrow> Some (Inr (), st1\<lparr>timed_out := True\<rparr>)
      | Some (Inl SocketError, st1) \<Rightarrow> Some (Inr (), st1)
      | Some (Inl (NetcatError r), st1) \<Rightarrow> Some (Inr (), st1)
      | Some (Inl e, st1) \<Rightarrow> Some (Inl e, st1)
      | Some (Inr u, st1) \<Rightarrow> Some (Inr (), st1))"

definition recv_all :: "timeout_arg \<Rightarrow> netcat \<Rightarrow> bytes result" where
  "recv_all timeout0 st0 =
     (let st = st0\<lparr>timed_out := False\<rparr>;
          timeout = effective timeout0 st
      in case time_time st of
           None \<Rightarrow> None
         | Some (start, st1) \<Rightarrow>
             (case recv_all_try timeout start st1 of
                None \<Rightarrow> None
              | Some (Inl e, st2) \<Rightarrow> Some (Inl e, st2)
              | Some (Inr u, st2) \<Rightarrow>
                  (case sock_settimeout (default_timeout st2) st2 of
                     Inl e \<Rightarrow> Some (Inl e, st2)
                   | Inr st3 \<Rightarrow> Some (Inr (buf st3), st3\<lparr>buf := []\<rparr>))))"

subsection \<open>recv_exactly\<close>

function recv_exactly_loop :: "int \<Rightarrow> real option \<Rightarrow> real \<Rightarrow> netcat \<Rightarrow> unit result" where
  "recv_exactly_loop n timeout start st =
     (if int (length (buf st)) < n then
        (case check_deadline timeout start st of
           None \<Rightarrow> None
         | Some (Inl e, st1) \<Rightarrow> Some (Inl e, st1)
         | Some (Inr True, st1) \<Rightarrow> Some (Inr (), st1)
         | Some (Inr False, st1) \<Rightarrow>
             (case sock_recv (n - int (length (buf st1))) st1 of
                None \<Rightarrow> None
              | Some (Inl e, st2) \<Rightarrow> Some (Inl e, st2)
              | Some (Inr a, st2) \<Rightarrow>
                  if length a = 0 then Some (Inl (NetcatError (Closed_before n)), st2)
                  else recv_exactly_loop n timeout start (st2\<lparr>buf := buf st2 @ a\<rparr>)))
      else Some (Inr (), st))"
  by pat_completeness auto
termination
proof (relation "measure (\<lambda>(n, timeout, start, st). script_size (incoming st))")
  show "wf (measure (\<lambda>(n, timeout, start, st). script_size (incoming st)))"
    by simp
next
  fix n :: int and timeout start st x2 x1 st1 x2a x2b x1a st2 a
  assume c: "check_deadline timeout start st = Some x2" "(x1, st1) = x2"
    and r: "sock_recv (n - int (length (buf st1))) st1 = Some x2b" "(x1a, st2) = x2b"
      "x1a = Inr a" "length a \<noteq> 0"
  from c have "incoming st1 = incoming st"
    by (auto simp: check_deadline_def time_time_def sock_settimeout_def Let_def
        split: option.splits list.splits if_splits sum.splits)
  moreover from r have "script_size (incoming st2) < script_size (incoming st1)"
    by (auto simp: sock_recv_def split: if_splits list.splits sock_event.splits option.splits)
  ultimately
  show "((n, timeout, start, st2\<lparr>buf := buf st2 @ a\<rparr>), n, timeout, start, st)
             \<in> measure (\<lambda>(n, timeout, start, st). script_size (incoming st))"
    by simp
qed

text \<open>
  The handlers of the \<open>try\<close> statement: Ctrl-C is swallowed, a timeout sets the flag, a
  socket error is raised again as a \<open>NetcatError\<close>; the \<open>NetcatError\<close> of the loop has
  no handler.
\<close>

definition recv_exactly_try :: "int \<Rightarrow> real option \<Rightarrow> real \<Rightarrow> netcat \<Rightarrow> unit result" where
  "recv_exactly_try n timeout start st =
     (case recv_exactly_loop n timeout start st of
        None \<Rightarrow> None
      | Some (Inl KeyboardInterrupt, st1) \<Rightarrow> Some (Inr (), st1)
      | Some (Inl SocketTimeout, st1) \<Rightarrow> Some (Inr (), st1\<lparr>timed_out := True\<rparr>)
      | Some (Inl SocketError, st1) \<Rightarrow> Some (Inl (NetcatError Socket_error), st1)
      | Some (Inl e, st1) \<Rightarrow> Some (Inl e, st1)
      | Some (Inr u, st1) \<Rightarrow> Some (Inr (), st1))"

text \<open>
  The header, printed before the \<open>try\<close> statement when \<open>verbose\<close> and
  \<open>echo_headers\<close> are set:
  \<^verbatim>\<open>
  if timeout:
      print('======== Receiving until exactly {0}B or timeout({})  ========'.format(n, timeout))
  else:
      print('======== Receiving until exactly {0}B  ========'.format(n))
  \<close>
  The first format string numbers one field and leaves the other unnumbered, which
  \<open>str.format\<close> rejects with ValueError; the second prints.
\<close>

definition recv_exactly :: "int \<Rightarrow> timeout_arg \<Rightarrow> netcat \<Rightarrow> bytes result" where
  "recv_exactly n timeout0 st0 =
     (let st = st0\<lparr>timed_out := False\<rparr>;
          timeout = effective timeout0 st
      in if verbose st \<and> echo_headers st \<and> truthy timeout then Some (Inl ValueError, st)
         else
           (case time_time st of
              None \<Rightarrow> None
            | Some (start, st1) \<Rightarrow>
                (case recv_exactly_try n timeout start st1 of
                   None \<Rightarrow> None
                 | Some (Inl e, st2) \<Rightarrow> Some (Inl e, st2)
                 | Some (Inr u, st2) \<Rightarrow>
                     (let out = slice_to n (buf st2);
                          st3 = st2\<lparr>buf := slice_from n (buf st2)\<rparr>
                      in Some (Inr out, log_recv out st3)))))"

subsection \<open>send\<close>

function send_loop :: "bytes \<Rightarrow> netcat \<Rightarrow> unit result" where
  "send_loop s st =
     (if s \<noteq> [] then
        (case (if peer_implicit st then sock_send s st
               else (case peer st of
                       None \<Rightarrow> Some (Inl AttributeError, st)
                     | Some p \<Rightarrow> sock_sendto s p st)) of
           None \<Rightarrow> None
         | Some (Inl e, st1) \<Rightarrow> Some (Inl e, st1)
         | Some (Inr k, st1) \<Rightarrow> send_loop (drop k s) st1)
      else Some (Inr (), st))"
  by pat_completeness auto
termination
proof (relation "measure (\<lambda>(s, st). length (outgoing st))")
  show "wf (measure (\<lambda>(s, st). length (outgoing st)))"
    by simp
next
  fix s :: bytes and st x2 x1 st1 k
  assume "s \<noteq> []"
    and w: "(if peer_implicit st then sock_send s st
             else case peer st of None \<Rightarrow> Some (Inl AttributeError, st)
                  | Some p \<Rightarrow> sock_sendto s p st) = Some x2"
      "(x1, st1) = x2" "x1 = Inr k"
  from w have "length (outgoing st1) < length (outgoing st)"
    by (auto simp: sock_send_def sock_sendto_def
        split: if_splits option.splits list.splits write_event.splits)
  then show "((drop k s, st1), s, st) \<in> measure (\<lambda>(s, st). length (outgoing st))"
    by simp
qed

definition send :: "bytes \<Rightarrow> netcat \<Rightarrow> unit result" where
  "send s st = send_loop s (log_send s st)"

subsection \<open>Notions used in the statements\<close>

text \<open>The bytes a script of socket outcomes still delivers, in order.\<close>

fun stream_of :: "sock_event list \<Rightarrow> bytes" where
  "stream_of [] = []"
| "stream_of (Burst bs # es) = bs @ stream_of es"
| "stream_of (e # es) = stream_of es"

text \<open>The bytes a caller can still obtain: the residual buffer, then the socket.\<close>

definition available :: "netcat \<Rightarrow> nat" where
  "available st = length (buf st) + length (stream_of (incoming st))"

text \<open>
  A connection as the constructor leaves it when it wraps a socket: nothing buffered,
  \<open>_timeout\<close> unset, and scripts that are empty until an example fills them.
\<close>

definition idle :: netcat where
  "idle = \<lparr>buf = [], peer = None, peer_implicit = True, default_timeout = None,
     timed_out = False, sock_timeout = None, incoming = [], clock = [],
     outgoing = [], wire = [], recv_log = [], send_log = [],
     verbose = False, echo_headers = True\<rparr>"

text \<open>
  The explicit target of the writes of \<open>send\<close>: none when the peer is implicit
  (\<open>sock.send\<close>), the attribute \<open>peer\<close> otherwise (\<open>sock.sendto\<close>).
\<close>

definition target :: "netcat \<Rightarrow> addr option" where
  "target st = (if peer_implicit st then None else peer st)"

text \<open>
  The pieces in which a socket that accepts \<open>k1\<close>, \<open>k2\<close>, ... bytes takes the data
  \<open>s\<close> when every write is issued with exactly what the writes before did not accept.
\<close>

fun split_by :: "nat list \<Rightarrow> bytes \<Rightarrow> bytes list" where
  "split_by ks [] = []"
| "split_by [] (x # xs) = []"
| "split_by (k # ks) (x # xs) = take k (x # xs) # split_by ks (drop k (x # xs))"

text \<open>
  The clock script \<open>ds\<close> lets \<open>k\<close> iterations of a loop pass their deadline test: no
  deadline, or at least \<open>k\<close> readings and none of them later than the deadline.
\<close>

definition in_time :: "real option \<Rightarrow> real \<Rightarrow> nat \<Rightarrow> real list \<Rightarrow> bool" where
  "in_time timeout start k ds =
     (case timeout of None \<Rightarrow> True
      | Some t \<Rightarrow> k \<le> length ds \<and> (\<forall>d\<in>set ds. d - start \<le> t))"

text \<open>
  A world for the examples: a datagram \<open>hi\<close> arrives from 10.0.0.9, and the socket
  accepts two bytes, then three, then nine.
\<close>

definition lan :: world where
  "lan = \<lparr>w_incoming = [], w_clock = [], w_outgoing = [Accepted 2, Accepted 3, Accepted 9],
     accept_addr = (''10.0.0.7'', 4000), first_datagram = (''hi'', (''10.0.0.9'', 5353))\<rparr>"

section \<open>Lemmas on the model\<close>

text \<open>The loops are unfolded one iteration at a time, never by the simplifier on its own.\<close>

declare recv_until_loop.simps [simp del]
declare recv_all_loop.simps [simp del]
declare recv_exactly_loop.simps [simp del]
declare send_loop.simps [simp del]

lemmas prims = slice_to_def slice_from_def log_recv_def Let_def sock_recv_def
  sock_settimeout_def time_time_def check_deadline_def effective_def bytes_eq_str_def
  head_buf_def bytes_in_def

subsection \<open>One step of the socket, the clock and the loops\<close>

lemma check_deadline_None [simp]: "check_deadline None start st = Some (Inr False, st)"
  by (simp add: check_deadline_def)

lemma check_deadline_Some:
  assumes "check_deadline timeout start st = Some (r, st1)"
  shows "(r = Inr True \<and> timed_out st1 \<or> r = Inr False \<and> timed_out st1 = timed_out st) \<and>
     buf st1 = buf st \<and> incoming st1 = incoming st \<and>
     default_timeout st1 = default_timeout st \<and> recv_log st1 = recv_log st"
  using assms
  by (auto simp: check_deadline_def time_time_def sock_settimeout_def Let_def
      split: option.splits list.splits if_splits)

lemma sock_recv_frame:
  assumes "sock_recv k st = Some (r, st1)"
  shows "buf st1 = buf st \<and> default_timeout st1 = default_timeout st \<and>
     timed_out st1 = timed_out st \<and> recv_log st1 = recv_log st \<and>
     clock st1 = clock st \<and> sock_timeout st1 = sock_timeout st"
  using assms
  by (auto simp: sock_recv_def split: if_splits list.splits sock_event.splits option.splits)

lemma sock_recv_stream:
  assumes "sock_recv k st = Some (r, st1)"
  shows "(case r of Inl e \<Rightarrow> [] | Inr a \<Rightarrow> a) @ stream_of (incoming st1) = stream_of (incoming st)"
  using assms
  by (auto simp: sock_recv_def split: if_splits list.splits sock_event.splits option.splits)

lemma check_deadline_tick:
  assumes "clock st = d # ds"
  shows "check_deadline (Some T) start st =
     (if d - start > T then Some (Inr True, st\<lparr>clock := ds, timed_out := True\<rparr>)
      else Some (Inr False, st\<lparr>clock := ds, sock_timeout := Some (T - (d - start))\<rparr>))"
  using assms by (simp add: check_deadline_def time_time_def sock_settimeout_def Let_def)

lemma sock_recv_whole_burst:
  "incoming st = Burst c # es \<Longrightarrow> int (length c) \<le> k \<Longrightarrow>
     sock_recv k st = Some (Inr c, st\<lparr>incoming := es\<rparr>)"
  by (auto simp: sock_recv_def)

lemma in_time_mono: "in_time timeout start k ds \<Longrightarrow> j \<le> k \<Longrightarrow> in_time timeout start j ds"
  by (auto simp: in_time_def split: option.splits)

lemma check_deadline_in_time:
  assumes "in_time timeout start (Suc k) (clock st)"
  shows "\<exists>st1. check_deadline timeout start st = Some (Inr False, st1) \<and>
     in_time timeout start k (clock st1) \<and> buf st1 = buf st \<and> incoming st1 = incoming st \<and>
     timed_out st1 = timed_out st \<and> default_timeout st1 = default_timeout st"
proof (cases timeout)
  case None
  then show ?thesis by (simp add: in_time_def)
next
  case (Some t)
  with assms obtain d ds where clk: "clock st = d # ds" and d: "d - start \<le> t"
    and rest: "k \<le> length ds" "\<forall>d\<in>set ds. d - start \<le> t"
    by (cases "clock st") (auto simp: in_time_def)
  from clk d Some have "check_deadline timeout start st =
      Some (Inr False, st\<lparr>clock := ds, sock_timeout := Some (t - (d - start))\<rparr>)"
    by (simp add: check_deadline_tick)
  with rest Some show ?thesis by (simp add: in_time_def)
qed

lemma sock_settimeout_valid:
  "(\<forall>x. t = Some x \<longrightarrow> 0 \<le> x) \<Longrightarrow> sock_settimeout t st = Inr (st\<lparr>sock_timeout := t\<rparr>)"
  by (cases t) (auto simp: sock_settimeout_def)

lemma recv_try_frame:
  "recv_try n timeout st = Some (r, st1) \<Longrightarrow>
     default_timeout st1 = default_timeout st \<and> recv_log st1 = recv_log st"
  unfolding recv_try_def
  by (auto simp: sock_settimeout_def split: timeout_arg.splits option.splits if_splits
      sum.splits exn.splits dest!: sock_recv_frame)

subsection \<open>Searching the buffer\<close>

lemma find_bytes_bound: "find_bytes s xs = Some i \<Longrightarrow> i + length s \<le> length xs"
proof (induction xs arbitrary: i)
  case Nil
  then show ?case by (simp split: if_splits)
next
  case (Cons x xs)
  show ?case
  proof (cases "prefix s (x # xs)")
    case True
    with Cons.prems show ?thesis by (auto dest: prefix_length_le)
  next
    case False
    with Cons.prems obtain j where "find_bytes s xs = Some j" "i = Suc j" by auto
    with Cons.IH [of j] show ?thesis by simp
  qed
qed

lemma find_bytes_least:
  "find_bytes s xs = Some i \<Longrightarrow>
     prefix s (drop i xs) \<and> (\<forall>j<i. \<not> prefix s (drop j xs))"
proof (induction xs arbitrary: i)
  case Nil
  then show ?case by (simp split: if_splits)
next
  case (Cons x xs)
  show ?case
  proof (cases "prefix s (x # xs)")
    case True
    with Cons.prems show ?thesis by simp
  next
    case False
    with Cons.prems obtain k where k: "find_bytes s xs = Some k" "i = Suc k" by auto
    from Cons.IH [OF k(1)] have ih: "prefix s (drop k xs)" "\<forall>j<k. \<not> prefix s (drop j xs)"
      by simp_all
    have "\<not> prefix s (drop j (x # xs))" if "j < i" for j
    proof (cases j)
      case 0
      with False show ?thesis by simp
    next
      case (Suc m)
      with that k ih show ?thesis by simp
    qed
    with ih k show ?thesis by simp
  qed
qed

lemma find_bytes_append:
  "find_bytes s xs = Some i \<Longrightarrow> find_bytes s (xs @ ys) = Some i"
proof (induction xs arbitrary: i)
  case Nil
  then show ?case by (cases ys) (simp_all split: if_splits)
next
  case (Cons x xs)
  show ?case
  proof (cases "prefix s (x # xs)")
    case True
    with Cons.prems have "i = 0" by simp
    moreover from True have "prefix s ((x # xs) @ ys)" by (rule prefix_prefix)
    ultimately show ?thesis by simp
  next
    case False
    with Cons.prems obtain k where k: "find_bytes s xs = Some k" "i = Suc k" by auto
    from find_bytes_bound [OF k(1)] have "length s \<le> length (x # xs)" by simp
    with False have "\<not> prefix s ((x # xs) @ ys)"
      by (metis prefix_length_prefix prefixI prefix_order.dual_order.refl
          append_prefixD prefix_append prefix_def)
    with k Cons.IH [OF k(1)] show ?thesis by simp
  qed
qed

lemma bytes_in_append: "bytes_in s xs \<Longrightarrow> bytes_in s (xs @ ys)"
  by (auto simp: bytes_in_def dest: find_bytes_append)

subsection \<open>recv_until and its loop\<close>

lemma recv_until_loop_found:
  "bytes_in s (buf st) \<Longrightarrow> recv_until_loop s timeout start st = Some (Inr (), st)"
  by (subst recv_until_loop.simps) simp

lemma recv_until_loop_blocked:
  "\<not> bytes_in s (buf st) \<Longrightarrow> check_deadline timeout start st = None \<Longrightarrow>
     recv_until_loop s timeout start st = None"
  by (subst recv_until_loop.simps) simp

lemma recv_until_loop_expired:
  "\<not> bytes_in s (buf st) \<Longrightarrow> check_deadline timeout start st = Some (Inr True, st1) \<Longrightarrow>
     recv_until_loop s timeout start st = Some (Inr (), st1)"
  by (subst recv_until_loop.simps) simp

lemma recv_until_loop_read:
  "\<not> bytes_in s (buf st) \<Longrightarrow> check_deadline timeout start st = Some (Inr False, st1) \<Longrightarrow>
     recv_until_loop s timeout start st =
       (case sock_recv 4096 st1 of
          None \<Rightarrow> None
        | Some (Inl e, st2) \<Rightarrow> Some (Inl e, st2)
        | Some (Inr a, st2) \<Rightarrow>
            recv_until_loop s timeout start ((log_recv a st2)\<lparr>buf := buf st2 @ a\<rparr>))"
  by (subst recv_until_loop.simps)
    (simp add: bytes_eq_str_def split: option.splits sum.splits prod.splits)

lemma recv_until_loop_induct [case_names step]:
  assumes "\<And>s timeout start st. (\<And>st1 st2 a. \<not> bytes_in s (buf st) \<Longrightarrow>
              check_deadline timeout start st = Some (Inr False, st1) \<Longrightarrow>
              sock_recv 4096 st1 = Some (Inr a, st2) \<Longrightarrow>
              P s timeout start ((log_recv a st2)\<lparr>buf := buf st2 @ a\<rparr>)) \<Longrightarrow>
            P s timeout start st"
  shows "P s timeout start st"
proof (induction s timeout start st rule: recv_until_loop.induct)
  case (1 s timeout start st)
  show ?case
  proof (rule assms)
    fix st1 st2 a
    assume a: "\<not> bytes_in s (buf st)"
      and b: "check_deadline timeout start st = Some (Inr False, st1)"
      and c: "sock_recv 4096 st1 = Some (Inr a, st2)"
    show "P s timeout start ((log_recv a st2)\<lparr>buf := buf st2 @ a\<rparr>)"
      by (rule "1.IH" [OF a b refl refl refl c refl refl]) (simp add: bytes_eq_str_def)
  qed
qed

lemma recv_until_loop_cases [case_names found blocked expired read_blocked read_exn read_data]:
  assumes "bytes_in s (buf st) \<Longrightarrow> recv_until_loop s timeout start st = Some (Inr (), st) \<Longrightarrow> Q"
    and "\<not> bytes_in s (buf st) \<Longrightarrow> check_deadline timeout start st = None \<Longrightarrow>
           recv_until_loop s timeout start st = None \<Longrightarrow> Q"
    and "\<And>st1. \<not> bytes_in s (buf st) \<Longrightarrow>
           check_deadline timeout start st = Some (Inr True, st1) \<Longrightarrow>
           recv_until_loop s timeout start st = Some (Inr (), st1) \<Longrightarrow> Q"
    and "\<And>st1. \<not> bytes_in s (buf st) \<Longrightarrow>
           check_deadline timeout start st = Some (Inr False, st1) \<Longrightarrow>
           sock_recv 4096 st1 = None \<Longrightarrow>
           recv_until_loop s timeout start st = None \<Longrightarrow> Q"
    and "\<And>st1 e st2. \<not> bytes_in s (buf st) \<Longrightarrow>
           check_deadline timeout start st = Some (Inr False, st1) \<Longrightarrow>
           sock_recv 4096 st1 = Some (Inl e, st2) \<Longrightarrow>
           recv_until_loop s timeout start st = Some (Inl e, st2) \<Longrightarrow> Q"
    and "\<And>st1 a st2. \<not> bytes_in s (buf st) \<Longrightarrow>
           check_deadline timeout start st = Some (Inr False, st1) \<Longrightarrow>
           sock_recv 4096 st1 = Some (Inr a, st2) \<Longrightarrow>
           recv_until_loop s timeout start st =
             recv_until_loop s timeout start ((log_recv a st2)\<lparr>buf := buf st2 @ a\<rparr>) \<Longrightarrow> Q"
  shows Q
proof (cases "bytes_in s (buf st)")
  case True
  then show ?thesis by (rule assms(1)) (simp add: True recv_until_loop_found)
next
  case nb: False
  show ?thesis
  proof (cases "check_deadline timeout start st")
    case None
    with nb show ?thesis by (intro assms(2)) (simp_all add: recv_until_loop_blocked)
  next
    case (Some p)
    obtain r st1 where p: "p = (r, st1)" by (cases p)
    from Some p check_deadline_Some [of timeout start st r st1]
    consider "r = Inr True" | "r = Inr False" by auto
    then show ?thesis
    proof cases
      case 1
      with nb Some p show ?thesis by (intro assms(3)) (simp_all add: recv_until_loop_expired)
    next
      case 2
      with Some p have cd: "check_deadline timeout start st = Some (Inr False, st1)" by simp
      show ?thesis
      proof (cases "sock_recv 4096 st1")
        case None
        with nb cd show ?thesis by (intro assms(4)) (simp_all add: recv_until_loop_read)
      next
        case (Some q)
        obtain r2 st2 where q: "q = (r2, st2)" by (cases q)
        show ?thesis
        proof (cases r2)
          case (Inl e)
          with nb cd Some q show ?thesis
            by (intro assms(5) [of st1 e st2]) (simp_all add: recv_until_loop_read)
        next
          case (Inr a)
          with nb cd Some q show ?thesis
            by (intro assms(6) [of st1 a st2]) (simp_all add: recv_until_loop_read)
        qed
      qed
    qed
  qed
qed

lemma sock_recv_exn:
  "sock_recv 4096 st = Some (Inl e, st') \<Longrightarrow> e \<in> {SocketTimeout, SocketError, KeyboardInterrupt}"
  by (auto simp: sock_recv_def split: if_splits list.splits sock_event.splits option.splits)

lemma recv_until_loop_never_dropped:
  "recv_until_loop s timeout start st \<noteq> Some (Inl (NetcatError Connection_dropped), st')"
proof (induction s timeout start st rule: recv_until_loop_induct)
  case (step s timeout start st)
  show ?case
  proof (cases rule: recv_until_loop_cases [of s st timeout start])
    case (read_exn st1 e st2)
    then show ?thesis using sock_recv_exn [of st1 e st2] by auto
  next
    case (read_data st1 a st2)
    then show ?thesis using step by simp
  qed simp_all
qed

lemma recv_until_loop_frame:
  "recv_until_loop s timeout start st = Some (r, st') \<Longrightarrow>
     default_timeout st' = default_timeout st \<and>
     buf st' @ stream_of (incoming st') = buf st @ stream_of (incoming st)"
proof (induction s timeout start st rule: recv_until_loop_induct)
  case (step s timeout start st)
  show ?case
  proof (cases rule: recv_until_loop_cases [of s st timeout start])
    case found
    with step.prems show ?thesis by simp
  next
    case blocked
    with step.prems show ?thesis by simp
  next
    case (expired st1)
    with step.prems check_deadline_Some [of timeout start st "Inr True" st1]
    show ?thesis by simp
  next
    case (read_blocked st1)
    with step.prems show ?thesis by simp
  next
    case (read_exn st1 e st2)
    with step.prems check_deadline_Some [of timeout start st "Inr False" st1]
      sock_recv_frame [of 4096 st1 "Inl e" st2] sock_recv_stream [of 4096 st1 "Inl e" st2]
    show ?thesis by simp
  next
    case (read_data st1 a st2)
    with step.prems have
      "recv_until_loop s timeout start ((log_recv a st2)\<lparr>buf := buf st2 @ a\<rparr>) = Some (r, st')"
      by simp
    from step.IH [OF read_data(1-3) this]
      check_deadline_Some [OF read_data(2)]
      sock_recv_frame [OF read_data(3)] sock_recv_stream [OF read_data(3)]
    show ?thesis by (simp add: log_recv_def)
  qed
qed



lemma recv_until_loop_until_found:
  assumes "incoming st = map Burst cs @ rest" and "\<forall>c\<in>set cs. c \<noteq> []"
    and "bytes_in s (buf st @ concat cs)"
  shows "\<exists>st' cs'. recv_until_loop s None start st = Some (Inr (), st') \<and>
     bytes_in s (buf st') \<and> incoming st' = map Burst cs' @ rest \<and> (\<forall>c\<in>set cs'. c \<noteq> []) \<and>
     buf st' @ concat cs' = buf st @ concat cs \<and> timed_out st' = timed_out st \<and>
     default_timeout st' = default_timeout st \<and> clock st' = clock st"
  using assms
proof (induction "length (concat cs) + length cs" arbitrary: cs st rule: less_induct)
  case less
  show ?case
  proof (cases "bytes_in s (buf st)")
    case True
    then have "recv_until_loop s None start st = Some (Inr (), st)"
      by (rule recv_until_loop_found)
    with True less.prems show ?thesis by (intro exI [of _ st] exI [of _ cs]) simp
  next
    case nb: False
    with less.prems(3) obtain c cs' where Cons: "cs = c # cs'" by (cases cs) auto
    with less.prems have c: "c \<noteq> []" by simp
    have cd: "check_deadline None start st = Some (Inr False, st)" by simp
    show ?thesis
    proof (cases "length c \<le> 4096")
      case True
      let ?st2 = "st\<lparr>incoming := map Burst cs' @ rest\<rparr>"
      let ?st3 = "(log_recv c ?st2)\<lparr>buf := buf ?st2 @ c\<rparr>"
      from True Cons less.prems have "sock_recv 4096 st = Some (Inr c, ?st2)"
        by (simp add: sock_recv_def)
      with nb cd have unfold: "recv_until_loop s None start st = recv_until_loop s None start ?st3"
        by (simp add: recv_until_loop_read)
      have "length (concat cs') + length cs' < length (concat cs) + length cs"
        using Cons by simp
      moreover have "incoming ?st3 = map Burst cs' @ rest" by (simp add: log_recv_def)
      moreover have "\<forall>c\<in>set cs'. c \<noteq> []" using less.prems Cons by simp
      moreover have "bytes_in s (buf ?st3 @ concat cs')"
        using less.prems Cons by (simp add: log_recv_def)
      ultimately obtain st' cs'' where
        "recv_until_loop s None start ?st3 = Some (Inr (), st')" "bytes_in s (buf st')"
        "incoming st' = map Burst cs'' @ rest" "\<forall>c\<in>set cs''. c \<noteq> []"
        "buf st' @ concat cs'' = buf ?st3 @ concat cs'" "timed_out st' = timed_out ?st3"
        "default_timeout st' = default_timeout ?st3" "clock st' = clock ?st3"
        using less.hyps [of cs' ?st3] by blast
      with unfold Cons show ?thesis
        by (intro exI [of _ st'] exI [of _ cs'']) (simp add: log_recv_def)
    next
      case False
      let ?cs = "drop 4096 c # cs'"
      let ?st2 = "st\<lparr>incoming := map Burst ?cs @ rest\<rparr>"
      let ?st3 = "(log_recv (take 4096 c) ?st2)\<lparr>buf := buf ?st2 @ take 4096 c\<rparr>"
      from False Cons less.prems have "sock_recv 4096 st = Some (Inr (take 4096 c), ?st2)"
        by (simp add: sock_recv_def)
      with nb cd have unfold: "recv_until_loop s None start st = recv_until_loop s None start ?st3"
        by (simp add: recv_until_loop_read)
      have td: "take 4096 c @ drop 4096 c @ ys = c @ ys" for ys
        by (metis append_assoc append_take_drop_id)
      have "length (concat ?cs) + length ?cs < length (concat cs) + length cs"
        using Cons False by simp
      moreover have "incoming ?st3 = map Burst ?cs @ rest" by (simp add: log_recv_def)
      moreover have "\<forall>c\<in>set ?cs. c \<noteq> []" using less.prems Cons False by auto
      moreover have "bytes_in s (buf ?st3 @ concat ?cs)"
        using less.prems Cons by (simp add: log_recv_def td)
      ultimately obtain st' cs'' where
        "recv_until_loop s None start ?st3 = Some (Inr (), st')" "bytes_in s (buf st')"
        "incoming st' = map Burst cs'' @ rest" "\<forall>c\<in>set cs''. c \<noteq> []"
        "buf st' @ concat cs'' = buf ?st3 @ concat ?cs" "timed_out st' = timed_out ?st3"
        "default_timeout st' = default_timeout ?st3" "clock st' = clock ?st3"
        using less.hyps [of ?cs ?st3] by blast
      with unfold Cons show ?thesis
        by (intro exI [of _ st'] exI [of _ cs'']) (simp add: log_recv_def td)
    qed
  qed
qed

lemma recv_until_loop_closed_peer:
  "incoming st = replicate k Closed \<Longrightarrow> \<not> bytes_in s (buf st) \<Longrightarrow>
     recv_until_loop s None start st = None"
proof (induction k arbitrary: st)
  case 0
  then have "sock_recv 4096 st = None" by (simp add: sock_recv_def)
  with 0 show ?case by (simp add: recv_until_loop_read)
next
  case (Suc k)
  let ?st2 = "st\<lparr>incoming := replicate k Closed\<rparr>"
  let ?st3 = "(log_recv [] ?st2)\<lparr>buf := buf ?st2 @ []\<rparr>"
  from Suc.prems have "sock_recv 4096 st = Some (Inr [], ?st2)" by (simp add: sock_recv_def)
  with Suc.prems have "recv_until_loop s None start st = recv_until_loop s None start ?st3"
    by (simp add: recv_until_loop_read)
  moreover from Suc.prems have "recv_until_loop s None start ?st3 = None"
    by (intro Suc.IH) (simp_all add: log_recv_def)
  ultimately show ?case by simp
qed

lemma recv_until_closed_peer:
  assumes "incoming st = replicate k Closed" and "\<not> bytes_in s (buf st)"
    and "effective timeout st = None"
  shows "recv_until s timeout st = None"
proof (cases "clock st")
  case Nil
  then show ?thesis by (simp add: recv_until_def Let_def time_time_def)
next
  case (Cons start ds)
  let ?st1 = "st\<lparr>timed_out := False, clock := ds\<rparr>"
  have eff: "effective timeout (st\<lparr>timed_out := False\<rparr>) = None"
    using assms(3) by (simp add: effective_def split: timeout_arg.splits)
  from assms have "recv_until_loop s None start ?st1 = None"
    by (intro recv_until_loop_closed_peer [of _ k]) simp_all
  with Cons eff show ?thesis
    by (simp add: recv_until_def recv_until_try_def Let_def time_time_def)
qed

subsection \<open>The loop of recv_all\<close>

lemma recv_all_loop_induct [case_names step]:
  assumes "\<And>timeout start st. (\<And>st1 st2 a.
              check_deadline timeout start st = Some (Inr False, st1) \<Longrightarrow>
              sock_recv 4096 st1 = Some (Inr a, st2) \<Longrightarrow> a \<noteq> [] \<Longrightarrow>
              P timeout start (log_recv a (st2\<lparr>buf := buf st2 @ a\<rparr>))) \<Longrightarrow>
            P timeout start st"
  shows "P timeout start st"
proof (induction timeout start st rule: recv_all_loop.induct)
  case (1 timeout start st)
  show ?case
  proof (rule assms)
    fix st1 st2 a
    assume b: "check_deadline timeout start st = Some (Inr False, st1)"
      and c: "sock_recv 4096 st1 = Some (Inr a, st2)" and d: "a \<noteq> []"
    show "P timeout start (log_recv a (st2\<lparr>buf := buf st2 @ a\<rparr>))"
      by (rule "1.IH" [OF b refl refl refl c refl refl d])
  qed
qed

lemma recv_all_loop_cases [case_names blocked expired read_blocked read_exn read_eof read_data]:
  assumes "check_deadline timeout start st = None \<Longrightarrow>
           recv_all_loop timeout start st = None \<Longrightarrow> Q"
    and "\<And>st1. check_deadline timeout start st = Some (Inr True, st1) \<Longrightarrow>
           recv_all_loop timeout start st = Some (Inr (), st1) \<Longrightarrow> Q"
    and "\<And>st1. check_deadline timeout start st = Some (Inr False, st1) \<Longrightarrow>
           sock_recv 4096 st1 = None \<Longrightarrow>
           recv_all_loop timeout start st = None \<Longrightarrow> Q"
    and "\<And>st1 e st2. check_deadline timeout start st = Some (Inr False, st1) \<Longrightarrow>
           sock_recv 4096 st1 = Some (Inl e, st2) \<Longrightarrow>
           recv_all_loop timeout start st = Some (Inl e, st2) \<Longrightarrow> Q"
    and "\<And>st1 st2. check_deadline timeout start st = Some (Inr False, st1) \<Longrightarrow>
           sock_recv 4096 st1 = Some (Inr [], st2) \<Longrightarrow>
           recv_all_loop timeout start st = Some (Inr (), st2) \<Longrightarrow> Q"
    and "\<And>st1 a st2. check_deadline timeout start st = Some (Inr False, st1) \<Longrightarrow>
           sock_recv 4096 st1 = Some (Inr a, st2) \<Longrightarrow> a \<noteq> [] \<Longrightarrow>
           recv_all_loop timeout start st =
             recv_all_loop timeout start (log_recv a (st2\<lparr>buf := buf st2 @ a\<rparr>)) \<Longrightarrow> Q"
  shows Q
proof (cases "check_deadline timeout start st")
  case None
  then show ?thesis by (intro assms(1)) (simp_all add: recv_all_loop.simps)
next
  case (Some p)
  obtain r st1 where p: "p = (r, st1)" by (cases p)
  from Some p check_deadline_Some [of timeout start st r st1]
  consider "r = Inr True" | "r = Inr False" by auto
  then show ?thesis
  proof cases
    case 1
    with Some p show ?thesis by (intro assms(2)) (simp_all add: recv_all_loop.simps)
  next
    case 2
    with Some p have cd: "check_deadline timeout start st = Some (Inr False, st1)" by simp
    show ?thesis
    proof (cases "sock_recv 4096 st1")
      case None
      with cd show ?thesis by (intro assms(3)) (simp_all add: recv_all_loop.simps)
    next
      case (Some q)
      obtain r2 st2 where q: "q = (r2, st2)" by (cases q)
      show ?thesis
      proof (cases r2)
        case (Inl e)
        with cd Some q show ?thesis
          by (intro assms(4) [of st1 e st2]) (simp_all add: recv_all_loop.simps)
      next
        case (Inr a)
        show ?thesis
        proof (cases "a = []")
          case True
          with Inr cd Some q show ?thesis
            by (intro assms(5) [of st1 st2]) (simp_all add: recv_all_loop.simps)
        next
          case False
          with Inr cd Some q show ?thesis
            by (intro assms(6) [of st1 a st2])
              (simp_all add: recv_all_loop.simps [of timeout start st])
        qed
      qed
    qed
  qed
qed

lemma recv_all_loop_frame:
  "recv_all_loop timeout start st = Some (r, st') \<Longrightarrow>
     default_timeout st' = default_timeout st \<and>
     buf st' @ stream_of (incoming st') = buf st @ stream_of (incoming st) \<and>
     (\<exists>as. recv_log st' = recv_log st @ as \<and> buf st' = buf st @ concat as \<and>
           (\<forall>a\<in>set as. a \<noteq> []))"
proof (induction timeout start st rule: recv_all_loop_induct)
  case (step timeout start st)
  show ?case
  proof (cases rule: recv_all_loop_cases [of timeout start st])
    case blocked
    with step.prems show ?thesis by simp
  next
    case (expired st1)
    with step.prems check_deadline_Some [of timeout start st "Inr True" st1]
    show ?thesis by simp
  next
    case (read_blocked st1)
    with step.prems show ?thesis by simp
  next
    case (read_exn st1 e st2)
    with step.prems check_deadline_Some [of timeout start st "Inr False" st1]
      sock_recv_frame [of 4096 st1 "Inl e" st2] sock_recv_stream [of 4096 st1 "Inl e" st2]
    show ?thesis by simp
  next
    case (read_eof st1 st2)
    with step.prems check_deadline_Some [of timeout start st "Inr False" st1]
      sock_recv_frame [of 4096 st1 "Inr []" st2] sock_recv_stream [of 4096 st1 "Inr []" st2]
    show ?thesis by simp
  next
    case (read_data st1 a st2)
    let ?st = "log_recv a (st2\<lparr>buf := buf st2 @ a\<rparr>)"
    from read_data step.prems have run: "recv_all_loop timeout start ?st = Some (r, st')"
      by simp
    note ih = step.IH [OF read_data(1-3) run]
    note cd = check_deadline_Some [OF read_data(1)]
    note fr = sock_recv_frame [OF read_data(2)]
    note sr = sock_recv_stream [OF read_data(2)]
    from ih obtain as where as: "recv_log st' = recv_log ?st @ as" "buf st' = buf ?st @ concat as"
      "\<forall>a\<in>set as. a \<noteq> []" by blast
    have "recv_log st' = recv_log st @ (a # as)" "buf st' = buf st @ concat (a # as)"
      "\<forall>x\<in>set (a # as). x \<noteq> []"
      using as cd fr read_data(3) by (simp_all add: log_recv_def)
    then have "\<exists>as. recv_log st' = recv_log st @ as \<and> buf st' = buf st @ concat as \<and>
           (\<forall>a\<in>set as. a \<noteq> [])" by blast
    moreover have "default_timeout st' = default_timeout st"
      using ih cd fr by (simp add: log_recv_def)
    moreover have "buf st' @ stream_of (incoming st') = buf st @ stream_of (incoming st)"
      using ih cd fr sr by (simp add: log_recv_def)
    ultimately show ?thesis by blast
  qed
qed

lemma recv_all_loop_until_close:
  assumes "incoming st = map Burst cs @ Closed # es" and "\<forall>c\<in>set cs. c \<noteq> []"
    and "in_time timeout start (length (concat cs) + length cs + 1) (clock st)"
  shows "\<exists>st'. recv_all_loop timeout start st = Some (Inr (), st') \<and>
     buf st' = buf st @ concat cs \<and> incoming st' = es \<and>
     timed_out st' = timed_out st \<and> default_timeout st' = default_timeout st"
  using assms
proof (induction "length (concat cs) + length cs" arbitrary: cs st rule: less_induct)
  case less
  from check_deadline_in_time [of timeout start "length (concat cs) + length cs" st] less.prems(3)
  obtain st1 where cd: "check_deadline timeout start st = Some (Inr False, st1)"
    and t1: "in_time timeout start (length (concat cs) + length cs) (clock st1)"
    and fr: "buf st1 = buf st" "incoming st1 = incoming st" "timed_out st1 = timed_out st"
      "default_timeout st1 = default_timeout st"
    by auto
  show ?case
  proof (cases cs)
    case Nil
    with less.prems fr have "sock_recv 4096 st1 = Some (Inr [], st1\<lparr>incoming := es\<rparr>)"
      by (simp add: sock_recv_def)
    with cd have "recv_all_loop timeout start st = Some (Inr (), st1\<lparr>incoming := es\<rparr>)"
      by (subst recv_all_loop.simps) simp
    with Nil fr show ?thesis by simp
  next
    case (Cons c cs')
    with less.prems have c: "c \<noteq> []" by simp
    show ?thesis
    proof (cases "length c \<le> 4096")
      case True
      let ?st2 = "st1\<lparr>incoming := map Burst cs' @ Closed # es\<rparr>"
      let ?st3 = "log_recv c (?st2\<lparr>buf := buf ?st2 @ c\<rparr>)"
      from True Cons less.prems fr have "sock_recv 4096 st1 = Some (Inr c, ?st2)"
        by (simp add: sock_recv_def)
      with cd c have unfold: "recv_all_loop timeout start st = recv_all_loop timeout start ?st3"
        by (subst recv_all_loop.simps) simp
      have "length (concat cs') + length cs' < length (concat cs) + length cs"
        using Cons by simp
      moreover have "incoming ?st3 = map Burst cs' @ Closed # es" by (simp add: log_recv_def)
      moreover have "\<forall>c\<in>set cs'. c \<noteq> []" using less.prems Cons by simp
      moreover have "in_time timeout start (length (concat cs') + length cs' + 1) (clock ?st3)"
        using t1 Cons by (auto intro: in_time_mono simp: log_recv_def)
      ultimately obtain st' where
        "recv_all_loop timeout start ?st3 = Some (Inr (), st')"
        "buf st' = buf ?st3 @ concat cs'" "incoming st' = es"
        "timed_out st' = timed_out ?st3" "default_timeout st' = default_timeout ?st3"
        using less.hyps [of cs' ?st3] by blast
      with unfold Cons fr show ?thesis by (simp add: log_recv_def)
    next
      case False
      let ?cs = "drop 4096 c # cs'"
      let ?st2 = "st1\<lparr>incoming := map Burst ?cs @ Closed # es\<rparr>"
      let ?st3 = "log_recv (take 4096 c) (?st2\<lparr>buf := buf ?st2 @ take 4096 c\<rparr>)"
      from False Cons less.prems fr have "sock_recv 4096 st1 = Some (Inr (take 4096 c), ?st2)"
        by (simp add: sock_recv_def)
      moreover from False have "take 4096 c \<noteq> []" by auto
      ultimately have unfold:
        "recv_all_loop timeout start st = recv_all_loop timeout start ?st3"
        using cd by (subst recv_all_loop.simps) simp
      have "length (concat ?cs) + length ?cs < length (concat cs) + length cs"
        using Cons False by simp
      moreover have "incoming ?st3 = map Burst ?cs @ Closed # es" by (simp add: log_recv_def)
      moreover have "\<forall>c\<in>set ?cs. c \<noteq> []" using less.prems Cons False by auto
      moreover have "in_time timeout start (length (concat ?cs) + length ?cs + 1) (clock ?st3)"
        using t1 Cons False by (auto intro: in_time_mono simp: log_recv_def)
      ultimately obtain st' where
        "recv_all_loop timeout start ?st3 = Some (Inr (), st')"
        "buf st' = buf ?st3 @ concat ?cs" "incoming st' = es"
        "timed_out st' = timed_out ?st3" "default_timeout st' = default_timeout ?st3"
        using less.hyps [of ?cs ?st3] by blast
      with unfold Cons fr show ?thesis by (simp add: log_recv_def)
    qed
  qed
qed

subsection \<open>The loop of recv_exactly\<close>

lemma recv_exactly_loop_induct [case_names step]:
  assumes "\<And>n timeout start st. (\<And>st1 st2 a. int (length (buf st)) < n \<Longrightarrow>
              check_deadline timeout start st = Some (Inr False, st1) \<Longrightarrow>
              sock_recv (n - int (length (buf st1))) st1 = Some (Inr a, st2) \<Longrightarrow> a \<noteq> [] \<Longrightarrow>
              P n timeout start (st2\<lparr>buf := buf st2 @ a\<rparr>)) \<Longrightarrow>
            P n timeout start st"
  shows "P n timeout start st"
proof (induction n timeout start st rule: recv_exactly_loop.induct)
  case (1 n timeout start st)
  show ?case
  proof (rule assms)
    fix st1 st2 a
    assume a: "int (length (buf st)) < n"
      and b: "check_deadline timeout start st = Some (Inr False, st1)"
      and c: "sock_recv (n - int (length (buf st1))) st1 = Some (Inr a, st2)" and d: "a \<noteq> []"
    show "P n timeout start (st2\<lparr>buf := buf st2 @ a\<rparr>)"
      by (rule "1.IH" [OF a b refl refl refl c refl refl]) (simp add: d)
  qed
qed

lemma recv_exactly_loop_cases [case_names complete blocked expired read_blocked read_exn
    read_eof read_data]:
  assumes "\<not> int (length (buf st)) < n \<Longrightarrow>
           recv_exactly_loop n timeout start st = Some (Inr (), st) \<Longrightarrow> Q"
    and "int (length (buf st)) < n \<Longrightarrow> check_deadline timeout start st = None \<Longrightarrow>
           recv_exactly_loop n timeout start st = None \<Longrightarrow> Q"
    and "\<And>st1. int (length (buf st)) < n \<Longrightarrow>
           check_deadline timeout start st = Some (Inr True, st1) \<Longrightarrow>
           recv_exactly_loop n timeout start st = Some (Inr (), st1) \<Longrightarrow> Q"
    and "\<And>st1. int (length (buf st)) < n \<Longrightarrow>
           check_deadline timeout start st = Some (Inr False, st1) \<Longrightarrow>
           sock_recv (n - int (length (buf st1))) st1 = None \<Longrightarrow>
           recv_exactly_loop n timeout start st = None \<Longrightarrow> Q"
    and "\<And>st1 e st2. int (length (buf st)) < n \<Longrightarrow>
           check_deadline timeout start st = Some (Inr False, st1) \<Longrightarrow>
           sock_recv (n - int (length (buf st1))) st1 = Some (Inl e, st2) \<Longrightarrow>
           recv_exactly_loop n timeout start st = Some (Inl e, st2) \<Longrightarrow> Q"
    and "\<And>st1 st2. int (length (buf st)) < n \<Longrightarrow>
           check_deadline timeout start st = Some (Inr False, st1) \<Longrightarrow>
           sock_recv (n - int (length (buf st1))) st1 = Some (Inr [], st2) \<Longrightarrow>
           recv_exactly_loop n timeout start st =
             Some (Inl (NetcatError (Closed_before n)), st2) \<Longrightarrow> Q"
    and "\<And>st1 a st2. int (length (buf st)) < n \<Longrightarrow>
           check_deadline timeout start st = Some (Inr False, st1) \<Longrightarrow>
           sock_recv (n - int (length (buf st1))) st1 = Some (Inr a, st2) \<Longrightarrow> a \<noteq> [] \<Longrightarrow>
           recv_exactly_loop n timeout start st =
             recv_exactly_loop n timeout start (st2\<lparr>buf := buf st2 @ a\<rparr>) \<Longrightarrow> Q"
  shows Q
proof (cases "int (length (buf st)) < n")
  case False
  then show ?thesis by (intro assms(1)) (simp_all add: recv_exactly_loop.simps)
next
  case lt: True
  show ?thesis
  proof (cases "check_deadline timeout start st")
    case None
    with lt show ?thesis by (intro assms(2)) (simp_all add: recv_exactly_loop.simps)
  next
    case (Some p)
    obtain r st1 where p: "p = (r, st1)" by (cases p)
    from Some p check_deadline_Some [of timeout start st r st1]
    consider "r = Inr True" | "r = Inr False" by auto
    then show ?thesis
    proof cases
      case 1
      with lt Some p show ?thesis by (intro assms(3)) (simp_all add: recv_exactly_loop.simps)
    next
      case 2
      with Some p have cd: "check_deadline timeout start st = Some (Inr False, st1)" by simp
      show ?thesis
      proof (cases "sock_recv (n - int (length (buf st1))) st1")
        case None
        with lt cd show ?thesis by (intro assms(4)) (simp_all add: recv_exactly_loop.simps)
      next
        case (Some q)
        obtain r2 st2 where q: "q = (r2, st2)" by (cases q)
        show ?thesis
        proof (cases r2)
          case (Inl e)
          with lt cd Some q show ?thesis
            by (intro assms(5) [of st1 e st2]) (simp_all add: recv_exactly_loop.simps)
        next
          case (Inr a)
          show ?thesis
          proof (cases "a = []")
            case True
            with Inr lt cd Some q show ?thesis
              by (intro assms(6) [of st1 st2]) (simp_all add: recv_exactly_loop.simps)
          next
            case False
            with Inr lt cd Some q show ?thesis
              by (intro assms(7) [of st1 a st2])
                (simp_all add: recv_exactly_loop.simps [of n timeout start st])
          qed
        qed
      qed
    qed
  qed
qed

lemma recv_exactly_loop_frame:
  "recv_exactly_loop n timeout start st = Some (r, st') \<Longrightarrow>
     default_timeout st' = default_timeout st \<and> recv_log st' = recv_log st \<and>
     buf st' @ stream_of (incoming st') = buf st @ stream_of (incoming st)"
proof (induction n timeout start st rule: recv_exactly_loop_induct)
  case (step n timeout start st)
  show ?case
  proof (cases rule: recv_exactly_loop_cases [of st n timeout start])
    case complete
    with step.prems show ?thesis by simp
  next
    case blocked
    with step.prems show ?thesis by simp
  next
    case (expired st1)
    with step.prems check_deadline_Some [of timeout start st "Inr True" st1]
    show ?thesis by simp
  next
    case (read_blocked st1)
    with step.prems show ?thesis by simp
  next
    case (read_exn st1 e st2)
    with step.prems check_deadline_Some [of timeout start st "Inr False" st1]
      sock_recv_frame [OF read_exn(3)] sock_recv_stream [OF read_exn(3)]
    show ?thesis by simp
  next
    case (read_eof st1 st2)
    with step.prems check_deadline_Some [of timeout start st "Inr False" st1]
      sock_recv_frame [OF read_eof(3)] sock_recv_stream [OF read_eof(3)]
    show ?thesis by simp
  next
    case (read_data st1 a st2)
    with step.prems have
      "recv_exactly_loop n timeout start (st2\<lparr>buf := buf st2 @ a\<rparr>) = Some (r, st')"
      by simp
    from step.IH [OF read_data(1-4) this]
      check_deadline_Some [OF read_data(2)]
      sock_recv_frame [OF read_data(3)] sock_recv_stream [OF read_data(3)]
    show ?thesis by simp
  qed
qed

lemma recv_exactly_loop_until_close:
  assumes "incoming st = map Burst cs @ Closed # es" and "\<forall>c\<in>set cs. c \<noteq> []"
    and "int (length (buf st) + length (concat cs)) < n"
    and "in_time timeout start (length cs + 1) (clock st)"
  shows "\<exists>st'. recv_exactly_loop n timeout start st =
       Some (Inl (NetcatError (Closed_before n)), st') \<and>
     buf st' = buf st @ concat cs \<and> incoming st' = es"
  using assms
proof (induction cs arbitrary: st)
  case Nil
  from check_deadline_in_time [of timeout start 0 st] Nil.prems(4)
  obtain st1 where cd: "check_deadline timeout start st = Some (Inr False, st1)"
    and fr: "buf st1 = buf st" "incoming st1 = incoming st"
    by auto
  from Nil.prems have lt: "int (length (buf st)) < n" by simp
  with Nil.prems fr have "sock_recv (n - int (length (buf st1))) st1 =
      Some (Inr [], st1\<lparr>incoming := es\<rparr>)"
    by (simp add: sock_recv_def)
  with cd lt have "recv_exactly_loop n timeout start st =
      Some (Inl (NetcatError (Closed_before n)), st1\<lparr>incoming := es\<rparr>)"
    by (subst recv_exactly_loop.simps) simp
  with fr show ?case by simp
next
  case (Cons c cs)
  from check_deadline_in_time [of timeout start "length cs + 1" st] Cons.prems(4)
  obtain st1 where cd: "check_deadline timeout start st = Some (Inr False, st1)"
    and t1: "in_time timeout start (length cs + 1) (clock st1)"
    and fr: "buf st1 = buf st" "incoming st1 = incoming st"
    by auto
  from Cons.prems have lt: "int (length (buf st)) < n" and c: "c \<noteq> []" by simp_all
  let ?st2 = "st1\<lparr>incoming := map Burst cs @ Closed # es\<rparr>"
  let ?st3 = "?st2\<lparr>buf := buf ?st2 @ c\<rparr>"
  from Cons.prems fr have "incoming st1 = Burst c # (map Burst cs @ Closed # es)"
    "int (length c) \<le> n - int (length (buf st1))" by simp_all
  from sock_recv_whole_burst [OF this]
  have "sock_recv (n - int (length (buf st1))) st1 = Some (Inr c, ?st2)" .
  with cd lt c have unfold: "recv_exactly_loop n timeout start st =
      recv_exactly_loop n timeout start ?st3"
    by (subst recv_exactly_loop.simps) simp
  from Cons.prems fr t1 have "incoming ?st3 = map Burst cs @ Closed # es"
    "\<forall>c\<in>set cs. c \<noteq> []" "int (length (buf ?st3) + length (concat cs)) < n"
    "in_time timeout start (length cs + 1) (clock ?st3)" by simp_all
  from Cons.IH [OF this] unfold fr show ?case by auto
qed

subsection \<open>The loop of send\<close>

lemma split_by_Cons:
  "s \<noteq> [] \<Longrightarrow> split_by (k # ks) s = take k s # split_by ks (drop k s)"
  by (cases s) simp_all

lemma split_by_concat:
  "\<forall>k\<in>set ks. 0 < k \<Longrightarrow> length s \<le> sum_list ks \<Longrightarrow> concat (split_by ks s) = s"
proof (induction ks arbitrary: s)
  case Nil
  then show ?case by simp
next
  case (Cons k ks)
  show ?case
  proof (cases s)
    case Nil
    then show ?thesis by simp
  next
    case (Cons x xs)
    with Cons.prems have "length (drop k s) \<le> sum_list ks" by auto
    with Cons.IH [of "drop k s"] Cons.prems have "concat (split_by ks (drop k s)) = drop k s"
      by simp
    moreover from Cons have "split_by (k # ks) s = take k s # split_by ks (drop k s)"
      by (intro split_by_Cons) simp
    ultimately have "concat (split_by (k # ks) s) = take k s @ drop k s"
      by (simp only: concat.simps)
    then show ?thesis by (simp only: append_take_drop_id)
  qed
qed

lemma send_loop_all:
  assumes "outgoing st = map Accepted ks @ rest" and "\<forall>k\<in>set ks. 0 < k"
    and "length s \<le> sum_list ks" and "peer_implicit st \<or> peer st \<noteq> None"
  shows "\<exists>st'. send_loop s st = Some (Inr (), st') \<and>
           wire st' = wire st @ map (Pair (target st)) (split_by ks s) \<and>
           send_log st' = send_log st"
  using assms
proof (induction ks arbitrary: s st)
  case Nil
  then show ?case by (simp add: send_loop.simps)
next
  case (Cons k ks)
  show ?case
  proof (cases s)
    case Nil
    then show ?thesis by (simp add: send_loop.simps)
  next
    case (Cons x xs)
    let ?w = "(target st, take k s)"
    let ?st1 = "st\<lparr>outgoing := map Accepted ks @ rest, wire := wire st @ [?w]\<rparr>"
    from Cons.prems(1,4) have wr: "(if peer_implicit st then sock_send s st
         else case peer st of None \<Rightarrow> Some (Inl AttributeError, st)
              | Some p \<Rightarrow> sock_sendto s p st) = Some (Inr k, ?st1)"
      by (auto simp: sock_send_def sock_sendto_def target_def)
    from Cons.prems Cons have len: "length (drop k s) \<le> sum_list ks" by auto
    from Cons.prems have "outgoing ?st1 = map Accepted ks @ rest" "\<forall>k\<in>set ks. 0 < k"
      "peer_implicit ?st1 \<or> peer ?st1 \<noteq> None" by simp_all
    from Cons.IH [OF this(1,2) len this(3)] obtain st' where st':
      "send_loop (drop k s) ?st1 = Some (Inr (), st')"
      "wire st' = wire ?st1 @ map (Pair (target ?st1)) (split_by ks (drop k s))"
      "send_log st' = send_log ?st1" by blast
    have "send_loop s st = send_loop (drop k s) ?st1"
      using Cons wr by (subst send_loop.simps) simp
    moreover have "split_by (k # ks) s = take k s # split_by ks (drop k s)"
      using Cons by (intro split_by_Cons) simp
    ultimately show ?thesis using st' by (simp add: target_def)
  qed
qed

section \<open>The statements of the specification\<close>

subsection \<open>recv with an unlimited timeout\<close>

text \<open>
  Claim C1, as stated: when the buffer holds fewer than \<open>n\<close> bytes, \<open>recv\<close> reads the
  socket for the remainder and returns \<open>min(n, available)\<close> bytes. It fails: a nonempty
  buffer is returned at once, before the \<open>try\<close> statement that reads the socket. Two
  bytes are buffered, three more have arrived, five are asked for: the call returns two.
\<close>

theorem recv_short_of_available:
  "recv 5 (Given None) (idle\<lparr>buf := ''ab'', incoming := [Burst ''cde'']\<rparr>) =
     Some (Inr ''ab'', idle\<lparr>incoming := [Burst ''cde''], recv_log := [''ab'']\<rparr>) \<and>
   available (idle\<lparr>buf := ''ab'', incoming := [Burst ''cde'']\<rparr>) = 5 \<and>
   length ''ab'' \<noteq> min 5 (available (idle\<lparr>buf := ''ab'', incoming := [Burst ''cde'']\<rparr>))"
  by (simp add: idle_def available_def recv_def prims)

text \<open>
  Claim C1, amended. Let \<open>n\<close> be at least zero, the timeout unlimited (\<open>None\<close>, or
  \<open>'default'\<close> with \<open>_timeout\<close> unset) and \<open>_timeout\<close> a value the socket accepts. If
  the residual buffer is not empty, \<open>recv\<close> returns its first \<open>min(n, len(buf))\<close> bytes,
  keeps the rest buffered and does not read the socket. If the buffer is empty and bytes
  \<open>bs\<close> have arrived, \<open>recv\<close> makes one raw read bounded by \<open>n\<close> and returns what that
  read returns, the first \<open>min(n, len(bs))\<close> bytes of \<open>bs\<close>; the rest of \<open>bs\<close> stays
  in the socket. In both cases the result can be shorter than \<open>min(n, available)\<close>.
\<close>

theorem recv_unlimited_one_read:
  assumes "0 \<le> n" and "effective timeout st = None"
    and "\<forall>x. default_timeout st = Some x \<longrightarrow> 0 \<le> x"
  shows "(buf st \<noteq> [] \<longrightarrow>
            (\<exists>st'. recv n timeout st = Some (Inr (take (nat n) (buf st)), st') \<and>
                   buf st' = drop (nat n) (buf st) \<and> incoming st' = incoming st)) \<and>
         (buf st = [] \<longrightarrow> incoming st = Burst bs # es \<longrightarrow>
            (\<exists>st'. recv n timeout st = Some (Inr (take (nat n) bs), st') \<and> buf st' = [] \<and>
                   incoming st' =
                     (if length bs \<le> nat n then es else Burst (drop (nat n) bs) # es)))"
proof (intro conjI impI)
  assume "buf st \<noteq> []"
  with assms(1) show "\<exists>st'. recv n timeout st = Some (Inr (take (nat n) (buf st)), st') \<and>
      buf st' = drop (nat n) (buf st) \<and> incoming st' = incoming st"
    by (simp add: recv_def slice_to_def slice_from_def log_recv_def Let_def)
next
  assume empty: "buf st = []" and inc: "incoming st = Burst bs # es"
  let ?st = "st\<lparr>timed_out := False\<rparr>"
  from assms(2) have "timeout = Default \<and> default_timeout st = None \<or> timeout = Given None"
    by (cases timeout) (simp_all add: effective_def)
  then obtain st1 where st1: "(case timeout of Default \<Rightarrow> Inr ?st | Given t \<Rightarrow> sock_settimeout t ?st)
      = Inr st1" "buf st1 = []" "incoming st1 = Burst bs # es"
      "default_timeout st1 = default_timeout st"
    using empty inc by (auto simp: sock_settimeout_def)
  let ?rest = "if length bs \<le> nat n then es else Burst (drop (nat n) bs) # es"
  from st1 assms(1) have rd: "sock_recv (n - int (length (buf st1))) st1 =
      Some (Inr (take (nat n) bs), st1\<lparr>incoming := ?rest\<rparr>)"
    by (simp add: sock_recv_def)
  have tr: "recv_try n timeout ?st =
      Some (Inr (take (nat n) bs), st1\<lparr>incoming := ?rest, buf := []\<rparr>)"
    unfolding recv_try_def using st1 rd by simp
  let ?st2 = "st1\<lparr>incoming := ?rest, buf := []\<rparr>"
  from assms(3) st1 have "sock_settimeout (default_timeout ?st2) ?st2 =
      Inr (?st2\<lparr>sock_timeout := default_timeout ?st2\<rparr>)"
    by (intro sock_settimeout_valid) simp
  with tr empty show "\<exists>st'. recv n timeout st = Some (Inr (take (nat n) bs), st') \<and> buf st' = [] \<and>
      incoming st' = ?rest"
    by (simp add: recv_def Let_def bytes_eq_str_def log_recv_def)
qed

text \<open>Two bursts of two bytes have arrived: a call for four bytes returns the first burst.\<close>

theorem recv_unlimited_one_read_witness:
  "recv 4 (Given None) (idle\<lparr>incoming := [Burst ''ab'', Burst ''cd'']\<rparr>) =
     Some (Inr ''ab'', idle\<lparr>incoming := [Burst ''cd''], recv_log := [''ab'']\<rparr>) \<and>
   (\<exists>st'. recv 1 (Given None) (idle\<lparr>incoming := [Burst ''ab'', Burst ''cd'']\<rparr>) =
       Some (Inr ''a'', st') \<and> buf st' = [] \<and> incoming st' = [Burst ''b'', Burst ''cd''])"
  using recv_unlimited_one_read [of 1 "Given None"
      "idle\<lparr>incoming := [Burst ''ab'', Burst ''cd'']\<rparr>" "''ab''" "[Burst ''cd'']"]
  by (simp add: idle_def effective_def recv_def recv_try_def prims)

subsection \<open>The socket's deadline after a receive operation\<close>

text \<open>
  Claim C2. When a receive operation exits, the socket's deadline is \<open>_timeout\<close> again.
  \<open>recv\<close>, \<open>recv_until\<close> and \<open>recv_all\<close> put it back with
  \<open>self.sock.settimeout(self._timeout)\<close> after their \<open>try\<close> statement;
  \<open>recv_exactly\<close> has no such line. Two bytes asked for with a timeout of five
  seconds and read one second after the start are returned, and four seconds stay on the
  socket while \<open>_timeout\<close> is \<open>None\<close>. In \<open>recv\<close> the line is not reached when
  the handler for socket errors raises: the five seconds of the call stay on the socket.
\<close>

theorem deadline_not_restored:
  "recv_exactly 2 (Given (Some 5)) (idle\<lparr>incoming := [Burst ''ab''], clock := [0, 1]\<rparr>) =
     Some (Inr ''ab'', idle\<lparr>sock_timeout := Some 4, recv_log := [''ab'']\<rparr>) \<and>
   sock_timeout (idle\<lparr>sock_timeout := Some 4, recv_log := [''ab'']\<rparr>) \<noteq>
     default_timeout (idle\<lparr>sock_timeout := Some 4, recv_log := [''ab'']\<rparr>) \<and>
   recv 4 (Given (Some 5)) (idle\<lparr>incoming := [Fault]\<rparr>) =
     Some (Inl (NetcatError Socket_error), idle\<lparr>sock_timeout := Some 5\<rparr>) \<and>
   sock_timeout (idle\<lparr>sock_timeout := Some 5\<rparr>) \<noteq>
     default_timeout (idle\<lparr>sock_timeout := Some 5\<rparr>)"
  by (simp add: idle_def recv_def recv_try_def recv_exactly_def recv_exactly_try_def
      recv_exactly_loop.simps prims)

text \<open>
  What the three other operations do: when the socket's deadline is \<open>_timeout\<close> at the
  start, it is \<open>_timeout\<close> again whenever they return.
\<close>

lemma deadline_restored_on_return:
  assumes "sock_timeout st = default_timeout st"
  shows "(recv n timeout st = Some (Inr r, st') \<longrightarrow>
            sock_timeout st' = default_timeout st' \<and> default_timeout st' = default_timeout st) \<and>
         (recv_until s timeout st = Some (Inr r, st') \<longrightarrow>
            sock_timeout st' = default_timeout st' \<and> default_timeout st' = default_timeout st) \<and>
         (recv_all timeout st = Some (Inr r, st') \<longrightarrow>
            sock_timeout st' = default_timeout st' \<and> default_timeout st' = default_timeout st)"
proof (intro conjI impI)
  assume run: "recv n timeout st = Some (Inr r, st')"
  show "sock_timeout st' = default_timeout st'" "default_timeout st' = default_timeout st"
    using run assms
    by (auto simp: recv_def Let_def log_recv_def sock_settimeout_def bytes_eq_str_def
        split: if_splits option.splits sum.splits dest!: recv_try_frame)
next
  assume run: "recv_until s timeout st = Some (Inr r, st')"
  show "sock_timeout st' = default_timeout st'" "default_timeout st' = default_timeout st"
    using run
    by (auto simp: recv_until_def recv_until_try_def Let_def log_recv_def sock_settimeout_def
        time_time_def head_buf_def
        split: if_splits option.splits sum.splits list.splits exn.splits
        dest!: recv_until_loop_frame)
next
  assume run: "recv_all timeout st = Some (Inr r, st')"
  show "sock_timeout st' = default_timeout st'" "default_timeout st' = default_timeout st"
    using run
    by (auto simp: recv_all_def recv_all_try_def Let_def sock_settimeout_def time_time_def
        split: if_splits option.splits sum.splits list.splits exn.splits
        dest!: recv_all_loop_frame)
qed

subsection \<open>A closed peer\<close>

text \<open>
  Claim C3. The peer has closed and nothing is buffered: \<open>recv(4096, timeout=None)\<close> reads
  zero bytes. The test \<open>ret == ''\<close> compares a bytes object with a str, which is false in
  Python 3, so the call returns \<open>b''\<close> where the claim has it raise; \<open>recv_until\<close> makes
  the same comparison, reads zero bytes again and again, and ends by its deadline.
\<close>

theorem closed_peer_not_reported:
  "recv 4096 (Given None) (idle\<lparr>incoming := [Closed]\<rparr>) =
     Some (Inr [], idle\<lparr>recv_log := [[]]\<rparr>) \<and>
   recv_until ''x'' (Given (Some 1))
       (idle\<lparr>incoming := [Closed, Closed], clock := [0, 0.25, 0.5, 2]\<rparr>) =
     Some (Inr [], idle\<lparr>timed_out := True, recv_log := [[], [], []]\<rparr>)"
  by (simp add: idle_def recv_def recv_try_def recv_until_def recv_until_try_def
      recv_until_loop.simps prims)

subsection \<open>recv_until when its deadline expires\<close>




subsection \<open>A peer that closes during recv_all or recv_exactly\<close>

text \<open>
  Claim C5, as stated: in \<open>recv_exactly\<close>, as in \<open>recv_all\<close>, a zero-length read ends
  the loop and the data accumulated so far is returned. It fails for \<open>recv_exactly\<close>,
  whose loop raises \<open>NetcatError\<close> at a zero-length read, and no handler of its \<open>try\<close>
  statement catches that error. Two of three bytes arrive and the peer closes: the call
  raises, and the two bytes stay in the residual buffer.
\<close>

theorem recv_exactly_raises_on_close:
  "recv_exactly 3 (Given None) (idle\<lparr>incoming := [Burst ''ab'', Closed], clock := [0]\<rparr>) =
     Some (Inl (NetcatError (Closed_before 3)), idle\<lparr>buf := ''ab''\<rparr>)"
  by (simp add: idle_def recv_exactly_def recv_exactly_try_def recv_exactly_loop.simps prims)

text \<open>
  Claim C5, amended. The peer sends the nonempty bursts \<open>cs\<close> and closes, every test of
  the deadline passes, and \<open>_timeout\<close> is a value the socket accepts. Then \<open>recv_all\<close>
  ends its loop at the zero-length read and returns the residual buffer followed by all
  of \<open>cs\<close>, without raising and without \<open>timed_out\<close>. \<open>recv_exactly(n)\<close>, when the
  buffer and \<open>cs\<close> together hold fewer than \<open>n\<close> bytes, raises
  \<open>NetcatError('Connection closed before n bytes received!')\<close> at the zero-length read;
  the bytes accumulated so far stay in the residual buffer. (On a connection that prints
  headers, a call with a timeout does not come to its loop: it raises ValueError from
  the header line, before any read.)
\<close>

theorem peer_close_in_accumulation:
  assumes "incoming st = map Burst cs @ Closed # es" and "\<forall>c\<in>set cs. c \<noteq> []"
    and "clock st = start # ds"
    and "in_time (effective timeout st) start (length (concat cs) + length cs + 1) ds"
    and "\<forall>x. default_timeout st = Some x \<longrightarrow> 0 \<le> x"
  shows "(\<exists>st'. recv_all timeout st = Some (Inr (buf st @ concat cs), st') \<and>
            buf st' = [] \<and> incoming st' = es \<and> \<not> timed_out st') \<and>
         (int (length (buf st) + length (concat cs)) < n \<longrightarrow>
            (if verbose st \<and> echo_headers st \<and> truthy (effective timeout st)
             then recv_exactly n timeout st = Some (Inl ValueError, st\<lparr>timed_out := False\<rparr>)
             else \<exists>st'. recv_exactly n timeout st =
                      Some (Inl (NetcatError (Closed_before n)), st') \<and>
                    buf st' = buf st @ concat cs \<and> incoming st' = es))"
proof (intro conjI impI)
  let ?st1 = "st\<lparr>timed_out := False, clock := ds\<rparr>"
  let ?t = "effective timeout st"
  have eff: "effective timeout (st\<lparr>timed_out := False\<rparr>) = ?t"
    by (simp add: effective_def split: timeout_arg.splits)
  from assms have "incoming ?st1 = map Burst cs @ Closed # es"
    "in_time ?t start (length (concat cs) + length cs + 1) (clock ?st1)" by simp_all
  from recv_all_loop_until_close [OF this(1) assms(2) this(2)]
  obtain st2 where lp: "recv_all_loop ?t start ?st1 = Some (Inr (), st2)"
    and st2: "buf st2 = buf st @ concat cs" "incoming st2 = es" "\<not> timed_out st2"
      "default_timeout st2 = default_timeout st" by auto
  from assms(5) st2 have "sock_settimeout (default_timeout st2) st2 =
      Inr (st2\<lparr>sock_timeout := default_timeout st2\<rparr>)"
    by (intro sock_settimeout_valid) simp
  with lp st2 assms(3) eff
  show "\<exists>st'. recv_all timeout st = Some (Inr (buf st @ concat cs), st') \<and>
            buf st' = [] \<and> incoming st' = es \<and> \<not> timed_out st'"
    by (simp add: recv_all_def recv_all_try_def Let_def time_time_def)
next
  assume short: "int (length (buf st) + length (concat cs)) < n"
  let ?st1 = "st\<lparr>timed_out := False, clock := ds\<rparr>"
  let ?t = "effective timeout st"
  have eff: "effective timeout (st\<lparr>timed_out := False\<rparr>) = ?t"
    by (simp add: effective_def split: timeout_arg.splits)
  from assms short have "incoming ?st1 = map Burst cs @ Closed # es"
    "int (length (buf ?st1) + length (concat cs)) < n"
    "in_time ?t start (length cs + 1) (clock ?st1)"
    by (auto intro: in_time_mono)
  from recv_exactly_loop_until_close [OF this(1) assms(2) this(2,3)]
  obtain st2 where "recv_exactly_loop n ?t start ?st1 =
      Some (Inl (NetcatError (Closed_before n)), st2)"
    "buf st2 = buf st @ concat cs" "incoming st2 = es" by auto
  with assms(3) eff
  show "if verbose st \<and> echo_headers st \<and> truthy (effective timeout st)
        then recv_exactly n timeout st = Some (Inl ValueError, st\<lparr>timed_out := False\<rparr>)
        else \<exists>st'. recv_exactly n timeout st =
                 Some (Inl (NetcatError (Closed_before n)), st') \<and>
               buf st' = buf st @ concat cs \<and> incoming st' = es"
    by (simp add: recv_exactly_def recv_exactly_try_def Let_def time_time_def)
qed

text \<open>
  One byte is buffered, two more arrive and the peer closes, all within a deadline of
  nine seconds: \<open>recv_all\<close> returns the three bytes, \<open>recv_exactly(5)\<close> raises and
  keeps them.
\<close>

theorem peer_close_in_accumulation_witness:
  "recv_all (Given (Some 9))
       (idle\<lparr>buf := ''a'', incoming := [Burst ''bc'', Closed], clock := [0, 1, 2, 3, 4]\<rparr>) =
     Some (Inr ''abc'', idle\<lparr>clock := [3, 4], recv_log := [''bc'']\<rparr>) \<and>
   recv_exactly 5 (Given (Some 9))
       (idle\<lparr>buf := ''a'', incoming := [Burst ''bc'', Closed], clock := [0, 1, 2, 3, 4]\<rparr>) =
     Some (Inl (NetcatError (Closed_before 5)),
       idle\<lparr>buf := ''abc'', sock_timeout := Some 7, clock := [3, 4]\<rparr>)"
  using peer_close_in_accumulation [of
      "idle\<lparr>buf := ''a'', incoming := [Burst ''bc'', Closed], clock := [0, 1, 2, 3, 4]\<rparr>"
      "[''bc'']" "[]" 0 "[1, 2, 3, 4]" "Given (Some 9)" 5]
  by (simp add: idle_def recv_all_def recv_all_try_def recv_all_loop.simps
      recv_exactly_def recv_exactly_try_def recv_exactly_loop.simps prims)

subsection \<open>The calls of the logging hook\<close>

text \<open>
  Claim C6. Each receive operation calls \<open>_log_recv\<close> once, with the bytes it returns.
  \<open>recv_until\<close> calls it in its loop with every chunk it reads and once more with the
  bytes it returns: a burst holding a line and the two bytes after it is logged whole,
  and the line is logged again when it is returned, so the hook is called twice, the
  line is reported twice, and two bytes are reported that the call did not return.
  \<open>recv_all\<close> calls the hook in its loop only: it returns six bytes, and the hook saw
  two calls of two bytes each, none for the two bytes buffered before the call.
\<close>

theorem recv_until_logs_twice:
  "recv_until ''\<newline>'' (Given None) (idle\<lparr>incoming := [Burst ''ping\<newline>po''], clock := [0]\<rparr>) =
     Some (Inr ''ping\<newline>'', idle\<lparr>buf := ''po'', recv_log := [''ping\<newline>po'', ''ping\<newline>'']\<rparr>) \<and>
   recv_all (Given None)
       (idle\<lparr>buf := ''ab'', incoming := [Burst ''cd'', Burst ''ef'', Closed], clock := [0]\<rparr>) =
     Some (Inr ''abcdef'', idle\<lparr>recv_log := [''cd'', ''ef'']\<rparr>)"
  by (simp add: idle_def recv_until_def recv_until_try_def recv_until_loop.simps
      recv_all_def recv_all_try_def recv_all_loop.simps prims)

text \<open>
  The two other operations do what the claim says: a call of \<open>recv\<close> or
  \<open>recv_exactly\<close> that returns has called \<open>_log_recv\<close> exactly once, with the bytes it
  returns.
\<close>

lemma log_recv_calls:
  "(recv n timeout st = Some (Inr r, st') \<longrightarrow> recv_log st' = recv_log st @ [r]) \<and>
   (recv_exactly n timeout st = Some (Inr r, st') \<longrightarrow> recv_log st' = recv_log st @ [r])"
proof (intro conjI impI)
  assume "recv n timeout st = Some (Inr r, st')"
  then show "recv_log st' = recv_log st @ [r]"
    by (auto simp: recv_def Let_def log_recv_def sock_settimeout_def bytes_eq_str_def
        split: if_splits option.splits sum.splits dest!: recv_try_frame)
next
  assume "recv_exactly n timeout st = Some (Inr r, st')"
  then show "recv_log st' = recv_log st @ [r]"
    by (auto simp: recv_exactly_def recv_exactly_try_def Let_def log_recv_def time_time_def
        split: if_splits option.splits sum.splits list.splits exn.splits
        dest!: recv_exactly_loop_frame)
qed

subsection \<open>recv_exactly against a stalled peer\<close>

text \<open>
  Claim C7. Against a peer that sends nothing more, \<open>recv_exactly(n, timeout=T)\<close>
  returns fewer than \<open>n\<close> bytes with \<open>timed_out\<close> set and does not raise. On a
  connection with \<open>verbose\<close> set the call raises before it reads the clock or the
  socket: the header line is formatted with a string that \<open>str.format\<close> rejects, and
  the ValueError leaves the method. One byte is buffered, the peer sends two more and
  stalls, five bytes are asked for with a timeout of two seconds: nothing is returned
  and \<open>timed_out\<close> stays false.
\<close>

theorem recv_exactly_header_raises:
  "recv_exactly 5 (Given (Some 2))
       (idle\<lparr>verbose := True, buf := ''a'', incoming := [Burst ''bc'', Stall],
          clock := [10, 10.5, 11, 12.5]\<rparr>) =
     Some (Inl ValueError,
       idle\<lparr>verbose := True, buf := ''a'', incoming := [Burst ''bc'', Stall],
          clock := [10, 10.5, 11, 12.5]\<rparr>)"
  by (simp add: idle_def recv_exactly_def effective_def)

text \<open>
  Without \<open>verbose\<close> the same call returns the three bytes with \<open>timed_out\<close> set.
\<close>

lemma recv_exactly_quiet_stalled:
  "recv_exactly 5 (Given (Some 2))
       (idle\<lparr>buf := ''a'', incoming := [Burst ''bc'', Stall], clock := [10, 10.5, 11, 12.5]\<rparr>) =
     Some (Inr ''abc'', idle\<lparr>timed_out := True, sock_timeout := Some 1, clock := [12.5],
       recv_log := [''abc'']\<rparr>)"
  by (simp add: idle_def recv_exactly_def recv_exactly_try_def recv_exactly_loop.simps prims)

text \<open>
  A second way to the error: when the elapsed time the loop computes is the timeout
  itself, the test \<open>dt > timeout\<close> does not fire, the socket's deadline is set to zero,
  the read finds no data, and the handler for socket errors raises.
\<close>

lemma recv_exactly_zero_deadline:
  "recv_exactly 5 (Given (Some 1)) (idle\<lparr>incoming := [Stall], clock := [0.5, 1.5]\<rparr>) =
     Some (Inl (NetcatError Socket_error), idle\<lparr>sock_timeout := Some 0\<rparr>)"
  by (simp add: idle_def recv_exactly_def recv_exactly_try_def recv_exactly_loop.simps prims)

subsection \<open>recv_until followed by recv_all\<close>

text \<open>
  Claim C8. The stream is the residual buffer followed by the nonempty bursts \<open>cs\<close>, then
  the peer closes; the delimiter \<open>d\<close> occurs in the stream; both calls run without a
  deadline. Then \<open>recv_until(d)\<close> returns the stream up to and including the first
  occurrence of \<open>d\<close> (\<open>i\<close> is the least index at which \<open>d\<close> starts), \<open>recv_all()\<close> called
  next returns the rest, and the two results concatenated are the whole stream: what
  followed \<open>d\<close> in its burst was kept in the residual buffer.
\<close>

theorem recv_until_then_recv_all:
  assumes "effective t1 st = None" and "effective t2 st = None"
    and "\<forall>x. default_timeout st = Some x \<longrightarrow> 0 \<le> x"
    and "incoming st = map Burst cs @ Closed # es" and "\<forall>c\<in>set cs. c \<noteq> []"
    and "bytes_in d (buf st @ concat cs)"
    and "clock st = c1 # c2 # ds"
  shows "\<exists>i r1 st1 r2 st2. find_bytes d (buf st @ concat cs) = Some i \<and>
       prefix d (drop i (buf st @ concat cs)) \<and>
       (\<forall>j<i. \<not> prefix d (drop j (buf st @ concat cs))) \<and>
       recv_until d t1 st = Some (Inr r1, st1) \<and> recv_all t2 st1 = Some (Inr r2, st2) \<and>
       r1 = take (i + length d) (buf st @ concat cs) \<and>
       r1 @ r2 = buf st @ concat cs \<and> buf st2 = [] \<and> incoming st2 = es"
proof -
  let ?all = "buf st @ concat cs"
  let ?sta = "st\<lparr>timed_out := False, clock := c2 # ds\<rparr>"
  have eff1: "effective t1 (st\<lparr>timed_out := False\<rparr>) = None"
    using assms(1) by (simp add: effective_def split: timeout_arg.splits)
  from assms have "incoming ?sta = map Burst cs @ Closed # es" "bytes_in d (buf ?sta @ concat cs)"
    by simp_all
  from recv_until_loop_until_found [OF this(1) assms(5) this(2), of c1]
  obtain stb cs' where lp: "recv_until_loop d None c1 ?sta = Some (Inr (), stb)"
    and found: "bytes_in d (buf stb)"
    and stb: "incoming stb = map Burst cs' @ Closed # es" "\<forall>c\<in>set cs'. c \<noteq> []"
      "buf stb @ concat cs' = ?all" "\<not> timed_out stb"
      "default_timeout stb = default_timeout st" "clock stb = c2 # ds"
    by auto
  from found obtain i where i: "find_bytes d (buf stb) = Some i"
    by (auto simp: bytes_in_def)
  from find_bytes_append [OF i, of "concat cs'"] stb have idx: "find_bytes d ?all = Some i"
    by simp
  let ?k = "i + length d"
  from find_bytes_bound [OF i] have k: "?k \<le> length (buf stb)" .
  let ?stc = "stb\<lparr>sock_timeout := default_timeout stb\<rparr>"
  let ?r1 = "take ?k (buf stb)"
  let ?st1 = "log_recv ?r1 (?stc\<lparr>buf := drop ?k (buf stb)\<rparr>)"
  from assms(3) stb have set1: "sock_settimeout (default_timeout stb) stb = Inr ?stc"
    by (intro sock_settimeout_valid) simp
  have hb: "head_buf (Some (int i + int (length d))) ?stc =
      (?r1, ?stc\<lparr>buf := drop ?k (buf stb)\<rparr>)"
    by (simp add: head_buf_def Let_def slice_to_def slice_from_def nat_add_distrib)
  have run1: "recv_until d t1 st = Some (Inr ?r1, ?st1)"
    using assms(7) eff1 lp set1 stb(4) i hb
    by (simp add: recv_until_def recv_until_try_def Let_def time_time_def)
  have r1: "?r1 = take ?k ?all"
    using k stb(3) by (metis take_append diff_is_0_eq take_0 append_Nil2)
  \<comment> \<open>the second call\<close>
  let ?std = "?st1\<lparr>timed_out := False, clock := ds\<rparr>"
  have eff2: "effective t2 (?st1\<lparr>timed_out := False\<rparr>) = None"
    using assms(2) stb(5) by (simp add: effective_def log_recv_def split: timeout_arg.splits)
  have "incoming ?std = map Burst cs' @ Closed # es"
    "in_time None c2 (length (concat cs') + length cs' + 1) (clock ?std)"
    using stb by (simp_all add: log_recv_def in_time_def)
  from recv_all_loop_until_close [OF this(1) stb(2) this(2)]
  obtain ste where lp2: "recv_all_loop None c2 ?std = Some (Inr (), ste)"
    and ste: "buf ste = buf ?std @ concat cs'" "incoming ste = es"
      "default_timeout ste = default_timeout ?std" by auto
  from assms(3) stb ste have set2: "sock_settimeout (default_timeout ste) ste =
      Inr (ste\<lparr>sock_timeout := default_timeout ste\<rparr>)"
    by (intro sock_settimeout_valid) (simp add: log_recv_def)
  let ?r2 = "drop ?k (buf stb) @ concat cs'"
  have clk1: "clock ?st1 = c2 # ds" using stb by (simp add: log_recv_def)
  have run2: "\<exists>st2. recv_all t2 ?st1 = Some (Inr ?r2, st2) \<and> buf st2 = [] \<and> incoming st2 = es"
    using clk1 eff2 lp2 set2 ste
    by (simp add: recv_all_def recv_all_try_def Let_def time_time_def log_recv_def)
  have "?r1 @ ?r2 = ?all"
    using stb(3) by (metis append_assoc append_take_drop_id)
  with idx find_bytes_least [OF idx] run1 run2 r1 show ?thesis by metis
qed

text \<open>
  \<open>pi\<close> is buffered, a burst ends the first line and begins the second, another
  ends the second, and the peer closes: \<open>recv_until\<close> with the newline as delimiter
  returns the first line and \<open>recv_all\<close> the second.
\<close>

theorem recv_until_then_recv_all_witness:
  "recv_until ''\<newline>'' Default
       (idle\<lparr>buf := ''pi'', incoming := [Burst ''ng\<newline>po'', Burst ''ng\<newline>'', Closed],
          clock := [0, 1]\<rparr>) =
     Some (Inr ''ping\<newline>'',
       idle\<lparr>buf := ''po'', incoming := [Burst ''ng\<newline>'', Closed], clock := [1],
          recv_log := [''ng\<newline>po'', ''ping\<newline>'']\<rparr>) \<and>
   recv_all Default
       (idle\<lparr>buf := ''po'', incoming := [Burst ''ng\<newline>'', Closed], clock := [1],
          recv_log := [''ng\<newline>po'', ''ping\<newline>'']\<rparr>) =
     Some (Inr ''pong\<newline>'', idle\<lparr>recv_log := [''ng\<newline>po'', ''ping\<newline>'', ''ng\<newline>'']\<rparr>) \<and>
   ''ping\<newline>'' @ ''pong\<newline>'' = ''pi'' @ concat [''ng\<newline>po'', ''ng\<newline>'']"
  using recv_until_then_recv_all [of Default
      "idle\<lparr>buf := ''pi'', incoming := [Burst ''ng\<newline>po'', Burst ''ng\<newline>'', Closed],
          clock := [0, 1]\<rparr>" Default "[''ng\<newline>po'', ''ng\<newline>'']" "[]" "''\<newline>''" 0 1 "[]"]
  by (simp add: idle_def recv_until_def recv_until_try_def recv_until_loop.simps
      recv_all_def recv_all_try_def recv_all_loop.simps prims)

subsection \<open>send\<close>

text \<open>
  Claim C9. Let the socket accept \<open>k1\<close>, \<open>k2\<close>, ... bytes at its successive writes, each
  at least one byte and together at least \<open>len(s)\<close>, and let the peer be implicit or
  known. Then \<open>send(s)\<close> returns: it has
  logged \<open>s\<close> once, and the writes it issued carry the pieces \<open>split_by ks s\<close>: the first
  \<open>k1\<close> bytes of \<open>s\<close>, then the first \<open>k2\<close> of what follows them, and so on, so that
  every write starts exactly after the bytes accepted so far, and together the pieces
  are \<open>s\<close>. Every write has the same target: the peer of the connection when the peer
  is not implicit. The constructor called with \<open>listen\<close> and \<open>udp=True\<close> builds such a
  connection, and its target is the sender of the datagram it received.
\<close>

theorem send_transmits_all:
  assumes "outgoing st = map Accepted ks @ rest" and "\<forall>k\<in>set ks. 0 < k"
    and "length s \<le> sum_list ks" and "peer_implicit st \<or> peer st \<noteq> None"
  shows "(\<exists>st'. send s st = Some (Inr (), st') \<and>
            wire st' = wire st @ map (Pair (target st)) (split_by ks s) \<and>
            concat (split_by ks s) = s \<and> send_log st' = send_log st @ [s]) \<and>
         (\<exists>st0. init None None (Some l) True w = Inr st0 \<and>
            target st0 = Some (snd (first_datagram w)) \<and>
            buf st0 = take 1024 (fst (first_datagram w)))"
proof
  let ?st = "log_send s st"
  from assms have "outgoing ?st = map Accepted ks @ rest" "peer_implicit ?st \<or> peer ?st \<noteq> None"
    by (simp_all add: log_send_def)
  from send_loop_all [OF this(1) assms(2,3) this(2)] split_by_concat [OF assms(2,3)]
  show "\<exists>st'. send s st = Some (Inr (), st') \<and>
            wire st' = wire st @ map (Pair (target st)) (split_by ks s) \<and>
            concat (split_by ks s) = s \<and> send_log st' = send_log st @ [s]"
    by (auto simp: send_def log_send_def target_def)
next
  show "\<exists>st0. init None None (Some l) True w = Inr st0 \<and>
            target st0 = Some (snd (first_datagram w)) \<and>
            buf st0 = take 1024 (fst (first_datagram w))"
    by (simp add: init_def target_def)
qed

text \<open>
  The connection is built by binding and receiving the datagram from 10.0.0.9; a send of
  five bytes is accepted in two writes of two and three bytes, both to 10.0.0.9.
\<close>

theorem send_transmits_all_witness:
  "init None None (Some (''0.0.0.0'', 8888)) True lan =
     Inr ((fresh lan)\<lparr>buf := ''hi'', peer := Some (''10.0.0.9'', 5353), peer_implicit := False\<rparr>) \<and>
   send ''hello''
       ((fresh lan)\<lparr>buf := ''hi'', peer := Some (''10.0.0.9'', 5353), peer_implicit := False\<rparr>) =
     Some (Inr (), (fresh lan)\<lparr>buf := ''hi'', peer := Some (''10.0.0.9'', 5353),
       peer_implicit := False, outgoing := [Accepted 9],
       wire := [(Some (''10.0.0.9'', 5353), ''he''), (Some (''10.0.0.9'', 5353), ''llo'')],
       send_log := [''hello'']\<rparr>)"
  using send_transmits_all [of
      "(fresh lan)\<lparr>buf := ''hi'', peer := Some (''10.0.0.9'', 5353), peer_implicit := False\<rparr>"
      "[2, 3]" "[Accepted 9]" "''hello''" "(''0.0.0.0'', 8888)" lan]
  by (simp add: init_def fresh_def lan_def send_def log_send_def send_loop.simps
      sock_send_def sock_sendto_def)

subsection \<open>recv with a nonempty residual buffer\<close>

text \<open>
  Claim C10. When the residual buffer is not empty, \<open>recv(n, timeout)\<close> returns the first
  \<open>min(n, len(buf))\<close> buffered bytes at once. The connection afterwards differs from the
  one before in three fields only: \<open>timed_out\<close> is false, the returned bytes are gone
  from the buffer and \<open>_log_recv\<close> was called with them. The socket was not read
  (\<open>incoming\<close> is as before), its deadline is as before, and the right-hand side does
  not mention \<open>timeout\<close>: the argument has no effect. The call therefore returns fewer
  than \<open>n\<close> bytes when the buffer is shorter, whatever the socket holds.
\<close>

theorem recv_buffered:
  assumes "buf st \<noteq> []" and "0 \<le> n"
  shows "recv n timeout st =
    Some (Inr (take (min (nat n) (length (buf st))) (buf st)),
          st\<lparr>timed_out := False, buf := drop (nat n) (buf st),
             recv_log := recv_log st @ [take (nat n) (buf st)]\<rparr>)"
proof -
  have "take (min (nat n) (length (buf st))) (buf st) = take (nat n) (buf st)"
    by (simp add: min_def)
  with assms show ?thesis
    by (simp add: recv_def slice_to_def slice_from_def log_recv_def Let_def)
qed

text \<open>
  Two bytes are buffered, three more wait in the socket, five are asked for with a
  timeout of three seconds: the call returns the two.
\<close>

theorem recv_buffered_witness:
  "buf (idle\<lparr>buf := ''ab'', incoming := [Burst ''cde'']\<rparr>) \<noteq> [] \<and> (0::int) \<le> 5 \<and>
   recv 5 (Given (Some 3)) (idle\<lparr>buf := ''ab'', incoming := [Burst ''cde'']\<rparr>) =
     Some (Inr ''ab'', idle\<lparr>incoming := [Burst ''cde''], recv_log := [''ab'']\<rparr>)"
  using recv_buffered [of "idle\<lparr>buf := ''ab'', incoming := [Burst ''cde'']\<rparr>" 5 "Given (Some 3)"]
  by (simp add: idle_def)

end
